theory Spec2Isabelle
  imports Complex_Main
begin

section \<open>Python and numpy primitives\<close>

text \<open>
  The module \<open>acceleration.py\<close> computes with numpy arrays of floats. The embedding takes
  floats as real numbers and arrays as lists: a one-dimensional array is a \<open>real list\<close>, a
  matrix a list of rows. Exceptions are values of type \<open>error\<close>.

  \<open>NonFinite\<close> is not a Python exception: where numpy divides by zero it goes on with
  \<open>inf\<close> or \<open>nan\<close> entries (and a warning), which the reals cannot represent, so the
  embedding stops there with \<open>Inl NonFinite\<close>.
\<close>

datatype error = ValueError | TypeError | AttributeError | IndexError | LinAlgError | NonFinite

definition ebind :: "error + 'a \<Rightarrow> ('a \<Rightarrow> error + 'b) \<Rightarrow> error + 'b" where
  "ebind r f = (case r of Inl e \<Rightarrow> Inl e | Inr x \<Rightarrow> f x)"

type_synonym vec = "real list"
type_synonym mat = "real list list"

text \<open>The objective history: one entry per iteration, each the list of the functions' values.\<close>

type_synonym objective = "real list list"

definition vadd :: "vec \<Rightarrow> vec \<Rightarrow> vec" where
  "vadd a b = map2 (+) a b"

definition vsub :: "vec \<Rightarrow> vec \<Rightarrow> vec" where
  "vsub a b = map2 (-) a b"

definition smul :: "real \<Rightarrow> vec \<Rightarrow> vec" where
  "smul c v = map ((*) c) v"

text \<open>
  \<open>a + b\<close> and \<open>a - b\<close> on one-dimensional arrays: elementwise on equal lengths, an array
  of length one is broadcast against the other, anything else raises \<open>ValueError\<close>.
\<close>

definition np_add :: "vec \<Rightarrow> vec \<Rightarrow> error + vec" where
  "np_add a b =
     (if length a = length b then Inr (vadd a b)
      else if length a = 1 then Inr (map (\<lambda>y. hd a + y) b)
      else if length b = 1 then Inr (map (\<lambda>x. x + hd b) a)
      else Inl ValueError)"

definition np_sub :: "vec \<Rightarrow> vec \<Rightarrow> error + vec" where
  "np_sub a b =
     (if length a = length b then Inr (vsub a b)
      else if length a = 1 then Inr (map (\<lambda>y. hd a - y) b)
      else if length b = 1 then Inr (map (\<lambda>x. x - hd b) a)
      else Inl ValueError)"

text \<open>\<open>dst[:] = src\<close> and \<open>dst += src\<close>: the shape of \<open>dst\<close> stays, \<open>src\<close> is broadcast to it.\<close>

definition assign :: "vec \<Rightarrow> vec \<Rightarrow> error + vec" where
  "assign dst src =
     (if length src = length dst then Inr src
      else if length src = 1 then Inr (replicate (length dst) (hd src))
      else Inl ValueError)"

definition iadd :: "vec \<Rightarrow> vec \<Rightarrow> error + vec" where
  "iadd dst src =
     (if length src = length dst then Inr (vadd dst src)
      else if length src = 1 then Inr (map (\<lambda>x. x + hd src) dst)
      else Inl ValueError)"

text \<open>\<open>np.dot\<close> of two one-dimensional arrays, and \<open>np.sum(v**2)\<close>.\<close>

definition dot :: "vec \<Rightarrow> vec \<Rightarrow> real" where
  "dot a b = sum_list (map2 (*) a b)"

definition np_dot :: "vec \<Rightarrow> vec \<Rightarrow> error + real" where
  "np_dot a b = (if length a = length b then Inr (dot a b) else Inl ValueError)"

definition sumsq :: "vec \<Rightarrow> real" where
  "sumsq v = sum_list (map (\<lambda>x. x\<^sup>2) v)"

text \<open>\<open>xs[-j]\<close> for \<open>j \<ge> 0\<close>; \<open>xs[-0]\<close> is \<open>xs[0]\<close>.\<close>

definition neg_index :: "'a list \<Rightarrow> nat \<Rightarrow> error + 'a" where
  "neg_index xs j =
     (if j = 0 then (case xs of [] \<Rightarrow> Inl IndexError | x # _ \<Rightarrow> Inr x)
      else if j \<le> length xs then Inr (xs ! (length xs - j))
      else Inl IndexError)"

section \<open>The collaborators: solver and objective functions\<close>

text \<open>
  The solver owns the current solution and the step size; what else it holds is the
  extension of the record. An objective function offers \<open>eval\<close>, \<open>grad\<close> and the
  capability query \<open>cap\<close>.
\<close>

record solver =
  sol :: vec
  step :: real

record func =
  eval :: "vec \<Rightarrow> real"
  grad :: "vec \<Rightarrow> vec"
  cap :: "vec \<Rightarrow> string list"

section \<open>The acceleration schemes\<close>

text \<open>
  Class \<open>accel\<close>: the attribute \<open>sol\<close> exists between \<open>pre\<close> and \<open>post\<close> only, so it is
  an option. \<open>accel.__init__\<close> takes no keyword argument: a non-empty \<open>kwargs\<close>
  that reaches it raises \<open>TypeError\<close>.
\<close>

record accel =
  sol :: "vec option"

subsection \<open>fista\<close>

record fista = accel +
  t :: real

definition fista_init :: "string list \<Rightarrow> error + fista" where
  "fista_init kwargs =
     (if kwargs \<noteq> [] then Inl TypeError else Inr \<lparr>accel.sol = None, t = 1\<rparr>)"

text \<open>The recurrence of line 262, \<open>(1. + np.sqrt(1. + 4. * self.t**2.)) / 2.\<close>\<close>

definition momentum :: "real \<Rightarrow> real" where
  "momentum s = (1 + sqrt (1 + 4 * s\<^sup>2)) / 2"

definition fista_update_sol ::
  "fista \<Rightarrow> 'a solver_scheme \<Rightarrow> objective \<Rightarrow> nat \<Rightarrow> error + (vec \<times> fista)" where
  "fista_update_sol self slv objective niter =
     (let t0 = (if niter = 1 then 1 else t self);
          t1 = momentum t0
      in case accel.sol self of
           None \<Rightarrow> Inl AttributeError
         | Some snap \<Rightarrow>
             ebind (np_sub (solver.sol slv) snap) (\<lambda>d.
             ebind (np_add (solver.sol slv) (smul ((t0 - 1) / t1) d)) (\<lambda>y.
             ebind (assign snap (solver.sol slv)) (\<lambda>s.
             Inr (y, self\<lparr>accel.sol := Some s, t := t1\<rparr>)))))"

subsection \<open>backtracking\<close>

record backtracking = accel +
  eta :: real
  smooth_funs :: "func list option"

definition backtracking_init :: "real \<Rightarrow> string list \<Rightarrow> error + backtracking" where
  "backtracking_init eta0 kwargs =
     (if eta0 > 1 \<or> eta0 \<le> 0 then Inl ValueError
      else if kwargs \<noteq> [] then Inl TypeError
      else Inr \<lparr>accel.sol = None, eta = eta0, smooth_funs = None\<rparr>)"

definition backtracking_pre :: "backtracking \<Rightarrow> func list \<Rightarrow> vec \<Rightarrow> backtracking" where
  "backtracking_pre self fs x0 =
     self\<lparr>accel.sol := Some x0,
          smooth_funs := Some (filter (\<lambda>f. ''GRAD'' \<in> set (cap f x0)) fs)\<rparr>"

text \<open>
  The \<open>for\<close> loop of lines 206 to 208: \<open>valp\<close> sums the values at the solver's solution,
  \<open>grad\<close> the gradients at the snapshot.
\<close>

fun smooth_sums :: "func list \<Rightarrow> vec \<Rightarrow> vec \<Rightarrow> real \<times> vec \<Rightarrow> error + (real \<times> vec)" where
  "smooth_sums [] cur snap (valp, g) = Inr (valp, g)"
| "smooth_sums (f # fs) cur snap (valp, g) =
     ebind (iadd g (grad f snap)) (\<lambda>g'. smooth_sums fs cur snap (valp + eval f cur, g'))"

text \<open>The condition of the \<open>while\<close> loop, lines 210 to 212.\<close>

definition majorant_violated ::
  "real \<Rightarrow> real \<Rightarrow> real \<Rightarrow> vec \<Rightarrow> vec \<Rightarrow> vec \<Rightarrow> error + bool" where
  "majorant_violated stp valp valn cur snap g =
     ebind (np_sub cur snap) (\<lambda>d.
     ebind (np_dot d g) (\<lambda>dg.
     Inr (2 * stp * (valp - valn - dg) > sumsq d)))"

text \<open>
  The body of the loop, lines 213 to 215, on the pair of the solver and \<open>valp\<close>. The
  solver's \<open>_algo\<close> is outside the module: it is the parameter \<open>algo\<close>, a function on the
  solver's state.
\<close>

definition shrink ::
  "('a solver_scheme \<Rightarrow> 'a solver_scheme) \<Rightarrow> real \<Rightarrow> func list \<Rightarrow>
   'a solver_scheme \<times> real \<Rightarrow> 'a solver_scheme \<times> real" where
  "shrink algo e fs sv =
     (let slv' = algo ((fst sv)\<lparr>step := step (fst sv) * e\<rparr>)
      in (slv', sum_list (map (\<lambda>f. eval f (solver.sol slv')) fs)))"

text \<open>The loop itself; \<open>None\<close> is a loop that runs forever.\<close>

partial_function (option) backtracking_loop ::
  "('a solver_scheme \<Rightarrow> 'a solver_scheme) \<Rightarrow> real \<Rightarrow> func list \<Rightarrow> vec \<Rightarrow> real \<Rightarrow> vec \<Rightarrow>
   'a solver_scheme \<times> real \<Rightarrow> (error + 'a solver_scheme) option" where
  "backtracking_loop algo e fs snap valn g sv =
     (case majorant_violated (step (fst sv)) (snd sv) valn (solver.sol (fst sv)) snap g of
        Inl err \<Rightarrow> Some (Inl err)
      | Inr b \<Rightarrow>
          if b then backtracking_loop algo e fs snap valn g (shrink algo e fs sv)
          else Some (Inr (fst sv)))"

text \<open>
  \<open>backtracking._update_step\<close>. The result is the returned step with the scheme and the
  solver as the call leaves them.
\<close>

definition backtracking_update_step ::
  "('a solver_scheme \<Rightarrow> 'a solver_scheme) \<Rightarrow> backtracking \<Rightarrow> 'a solver_scheme \<Rightarrow> objective \<Rightarrow>
   nat \<Rightarrow> (error + (real \<times> backtracking \<times> 'a solver_scheme)) option" where
  "backtracking_update_step algo self slv objective niter =
     (case neg_index objective 1 of
        Inl err \<Rightarrow> Some (Inl err)
      | Inr recent \<Rightarrow>
         (case smooth_funs self of
            None \<Rightarrow> Some (Inl AttributeError)
          | Some fs \<Rightarrow>
             (case accel.sol self of
                None \<Rightarrow> Some (Inl AttributeError)
              | Some snap \<Rightarrow>
                 (case smooth_sums fs (solver.sol slv) snap
                         (0, replicate (length (solver.sol slv)) 0) of
                    Inl err \<Rightarrow> Some (Inl err)
                  | Inr (valp, g) \<Rightarrow>
                      map_option (map_sum id (\<lambda>slv'. (step slv', self, slv')))
                        (backtracking_loop algo (eta self) fs snap (sum_list recent) g
                           (slv, valp))))))"

text \<open>
  The loop condition after \<open>m\<close> passes of the body, started on the pair \<open>sv\<close>.
\<close>

definition violated_at ::
  "('a solver_scheme \<Rightarrow> 'a solver_scheme) \<Rightarrow> real \<Rightarrow> func list \<Rightarrow> vec \<Rightarrow> real \<Rightarrow> vec \<Rightarrow>
   'a solver_scheme \<times> real \<Rightarrow> nat \<Rightarrow> error + bool" where
  "violated_at algo e fs snap valn g sv m =
     (let it = (shrink algo e fs ^^ m) sv
      in majorant_violated (step (fst it)) (snd it) valn (solver.sol (fst it)) snap g)"

subsection \<open>regularized\_nonlinear\<close>

text \<open>
  The attribute behind the property \<open>lambda_\<close> is the field \<open>lambda_grid\<close> (a name cannot
  end with an underscore here); \<open>None\<close> is an attribute that was never set. The attributes
  \<open>buffer\<close> and \<open>functions\<close> (the field \<open>functions_list\<close>) exist between \<open>pre\<close> and
  \<open>post\<close>.
\<close>

record regularized_nonlinear = accel +
  k :: nat
  lambda_grid :: "real list option"
  adaptive :: bool
  dolinesearch :: bool
  forcedecrease :: bool
  buffer :: "vec list option"
  functions_list :: "func list option"

text \<open>
  The setter of \<open>lambda_\<close> asks two things of its argument: to be iterated, and to be
  converted by \<open>float\<close>. A Python value is represented by its answers. \<open>conv\<close> is the
  outcome of \<open>float(x)\<close>. \<open>Iterable es c\<close> is a value whose iteration yields elements with
  the outcomes \<open>es\<close>, and whose own conversion has the outcome \<open>c\<close>; \<open>Scalar c\<close> is a
  value that cannot be iterated (\<open>TypeError\<close>). So \<open>1e-6\<close> is \<open>Scalar (Float (1 / 10^6))\<close>,
  \<open>[0.1, 1]\<close> is \<open>Iterable [Float (1 / 10), Float 1] RaisesTypeError\<close>, \<open>None\<close> is
  \<open>Scalar RaisesTypeError\<close>, and the string \<open>'abc'\<close>, whose elements are its characters,
  is \<open>Iterable [RaisesValueError, RaisesValueError, RaisesValueError] RaisesValueError\<close>.
\<close>

datatype conv = Float real | RaisesValueError | RaisesTypeError

datatype pyvalue = Iterable "conv list" conv | Scalar conv

datatype message = Must_provide_a_number | Must_provide_a_list_of_numbers

datatype warning = Line_search_failed

text \<open>\<open>[float(elem) for elem in lambda_]\<close>: the first failing element raises.\<close>

fun convert_all :: "conv list \<Rightarrow> error + real list" where
  "convert_all [] = Inr []"
| "convert_all (Float r # cs) = ebind (convert_all cs) (\<lambda>rs. Inr (r # rs))"
| "convert_all (RaisesValueError # cs) = Inl ValueError"
| "convert_all (RaisesTypeError # cs) = Inl TypeError"

text \<open>
  The setter, lines 349 to 359, on the current value of the attribute. It returns the new
  value and what it printed.
\<close>

definition lambda_setter ::
  "real list option \<Rightarrow> pyvalue \<Rightarrow> error + (real list option \<times> message list)" where
  "lambda_setter cur v =
     (case (case v of Iterable es c \<Rightarrow> convert_all es | Scalar c \<Rightarrow> Inl TypeError) of
        Inr rs \<Rightarrow> Inr (Some rs, [])
      | Inl TypeError \<Rightarrow>
          (case (case v of Iterable es c \<Rightarrow> c | Scalar c \<Rightarrow> c) of
             Float r \<Rightarrow> Inr (Some [r], [])
           | RaisesValueError \<Rightarrow> Inr (cur, [Must_provide_a_number])
           | RaisesTypeError \<Rightarrow> Inl TypeError)
      | Inl ValueError \<Rightarrow> Inr (cur, [Must_provide_a_list_of_numbers])
      | Inl err \<Rightarrow> Inl err)"

definition rna_init ::
  "nat \<Rightarrow> pyvalue \<Rightarrow> bool \<Rightarrow> bool \<Rightarrow> bool \<Rightarrow>
   error + (regularized_nonlinear \<times> message list)" where
  "rna_init k0 lam adaptive0 dolinesearch0 forcedecrease0 =
     ebind (lambda_setter None lam) (\<lambda>(g, out).
     Inr (\<lparr>accel.sol = None, k = k0, lambda_grid = g, adaptive = adaptive0,
           dolinesearch = dolinesearch0, forcedecrease = forcedecrease0,
           buffer = None, functions_list = None\<rparr>, out))"

definition rna_pre :: "regularized_nonlinear \<Rightarrow> func list \<Rightarrow> vec \<Rightarrow> regularized_nonlinear" where
  "rna_pre self fs x0 = self\<lparr>accel.sol := Some x0, buffer := Some [], functions_list := Some fs\<rparr>"

text \<open>
  What the module takes from numpy and scipy: \<open>np.linalg.eigvals\<close>, \<open>np.linalg.solve\<close>
  and \<open>scipy.optimize.linesearch.line_search_armijo\<close> (called with \<open>f\<close>, \<open>xk\<close>, \<open>pk\<close>,
  \<open>gfk\<close>, \<open>old_fval\<close>, \<open>c1\<close>, \<open>alpha0\<close>; of its result only the step \<open>a\<close> is used, and
  \<open>None\<close> is no step found). They are parameters of the embedding.
\<close>

record numlib =
  eigvals :: "mat \<Rightarrow> error + complex list"
  solve :: "mat \<Rightarrow> vec \<Rightarrow> error + vec"
  line_search_armijo :: "(vec \<Rightarrow> real) \<Rightarrow> vec \<Rightarrow> vec \<Rightarrow> vec \<Rightarrow> real \<Rightarrow> real \<Rightarrow> real \<Rightarrow> real option"

text \<open>
  The product of a matrix and a vector. It says what \<open>np.linalg.solve\<close> returns, in exact
  arithmetic: a vector \<open>c\<close> with \<open>matvec M c = b\<close>.
\<close>

definition matvec :: "mat \<Rightarrow> vec \<Rightarrow> vec" where
  "matvec M c = map (\<lambda>row. dot row c) M"

text \<open>
  Lines 373 to 375 on the buffer \<open>buf\<close> (the new point already appended): the consecutive
  differences, their Gram matrix, and its division by its Frobenius norm. Points of
  different shapes do not make an array (\<open>ValueError\<close>); a zero norm makes \<open>nan\<close> entries.
\<close>

definition gram :: "vec list \<Rightarrow> error + mat" where
  "gram buf =
     (if \<not> list_all (\<lambda>b. length b = length (hd buf)) buf then Inl ValueError
      else
        let U = map2 (\<lambda>a b. vsub b a) (butlast buf) (tl buf);
            UU = map (\<lambda>u. map (\<lambda>v. dot u v) U) U;
            nrm = sqrt (sum_list (map sumsq UU))
        in if UU \<noteq> [] \<and> nrm = 0 then Inl NonFinite
           else Inr (map (map (\<lambda>x. x / nrm)) UU))"

text \<open>
  \<open>exp (0.5 * (log a + log b))\<close> for \<open>a, b \<ge> 0\<close>: numpy's \<open>log 0\<close> is \<open>-inf\<close>, which stays
  \<open>-inf\<close> in the sum and gives \<open>exp (-inf) = 0\<close>.
\<close>

definition log_mean :: "real \<Rightarrow> real \<Rightarrow> real" where
  "log_mean a b = (if a = 0 \<or> b = 0 then 0 else exp (0.5 * (ln a + ln b)))"

text \<open>Lines 381 to 384: the grid assembled from the eigenvalues.\<close>

definition adaptive_grid :: "numlib \<Rightarrow> mat \<Rightarrow> error + real list" where
  "adaptive_grid lib UU =
     ebind (eigvals lib UU) (\<lambda>ev.
       let svals = sort (map cmod ev)
       in Inr (0 # map2 log_mean (butlast svals) (tl svals)))"

text \<open>The grid that the search of lines 391 to 399 runs over.\<close>

definition rna_grid :: "numlib \<Rightarrow> regularized_nonlinear \<Rightarrow> mat \<Rightarrow> error + real list" where
  "rna_grid lib self UU =
     (case lambda_grid self of
        None \<Rightarrow> Inl AttributeError
      | Some g \<Rightarrow> if adaptive self \<and> length g \<le> 1 then adaptive_grid lib UU else Inr g)"

text \<open>
  \<open>UU + lambda_ * np.eye(self.k)\<close>. Where \<open>UU\<close> is not \<open>k\<close> by \<open>k\<close> the call raises (in
  the sum itself, in \<open>solve\<close> or in the \<open>np.dot\<close> of line 397, by the shapes); the embedding
  raises \<open>ValueError\<close> here.
\<close>

definition regularized :: "mat \<Rightarrow> nat \<Rightarrow> real \<Rightarrow> error + mat" where
  "regularized UU n lam =
     (if length UU = n
      then Inr (map (\<lambda>i. map (\<lambda>j. UU ! i ! j + (if i = j then lam else 0)) [0..<n]) [0..<n])
      else Inl ValueError)"

text \<open>Lines 393 to 395: the coefficients for one candidate, solved and divided by their sum.\<close>

definition coefficients :: "numlib \<Rightarrow> mat \<Rightarrow> nat \<Rightarrow> real \<Rightarrow> error + vec" where
  "coefficients lib UU n lam =
     ebind (regularized UU n lam) (\<lambda>M.
     ebind (solve lib M (replicate n 1)) (\<lambda>c0.
     ebind (assign (replicate n 0) c0) (\<lambda>c.
     if c \<noteq> [] \<and> sum_list c = 0 then Inl NonFinite
     else Inr (map (\<lambda>x. x / sum_list c) c))))"

text \<open>
  Line 397, \<open>np.dot(np.asarray(self.buffer[:-1]).T, c)\<close>, written into \<open>extrap\<close> of length
  \<open>n\<close>: entry \<open>j\<close> is the sum of \<open>rows[i][j] * c[i]\<close>.
\<close>

definition extrapolation :: "vec list \<Rightarrow> vec \<Rightarrow> nat \<Rightarrow> error + vec" where
  "extrapolation rows c n =
     (if length rows = length c
      then Inr (map (\<lambda>j. sum_list (map2 (\<lambda>r ci. r ! j * ci) rows c)) [0..<n])
      else Inl ValueError)"

text \<open>\<open>np.sum([f.eval(x) for f in self.functions])\<close>\<close>

definition objective_value :: "func list \<Rightarrow> vec \<Rightarrow> real" where
  "objective_value fs x = sum_list (map (\<lambda>f. eval f x) fs)"

text \<open>The loop of lines 391 to 399: the objective value of each candidate's extrapolation.\<close>

fun grid_search ::
  "numlib \<Rightarrow> mat \<Rightarrow> nat \<Rightarrow> vec list \<Rightarrow> func list option \<Rightarrow> nat \<Rightarrow> real list \<Rightarrow>
   error + real list" where
  "grid_search lib UU kk rows fs n [] = Inr []"
| "grid_search lib UU kk rows fs n (lam # lams) =
     ebind (coefficients lib UU kk lam) (\<lambda>c.
     ebind (extrapolation rows c n) (\<lambda>x.
     (case fs of
        None \<Rightarrow> Inl AttributeError
      | Some fl \<Rightarrow>
          ebind (grid_search lib UU kk rows fs n lams) (\<lambda>fvals.
          Inr (objective_value fl x # fvals)))))"

text \<open>\<open>min(fvals)\<close> and \<open>fvals.index(x)\<close>, the latter for an \<open>x\<close> that occurs in the list.\<close>

definition py_min :: "real list \<Rightarrow> error + real" where
  "py_min xs = (case xs of [] \<Rightarrow> Inl ValueError | x # ys \<Rightarrow> Inr (fold min ys x))"

fun index_of :: "real \<Rightarrow> real list \<Rightarrow> nat" where
  "index_of x [] = 0"
| "index_of x (y # ys) = (if y = x then 0 else Suc (index_of x ys))"

text \<open>
  The test of line 401: with \<open>forcedecrease\<close>, whether the best value of the grid search is
  worse than the most recent objective entry.
\<close>

definition bad_extrapolation ::
  "regularized_nonlinear \<Rightarrow> real list \<Rightarrow> objective \<Rightarrow> error + bool" where
  "bad_extrapolation self fvals objective =
     (if forcedecrease self
      then ebind (py_min fvals) (\<lambda>m.
           ebind (neg_index objective 1) (\<lambda>recent.
           Inr (m > sum_list recent)))
      else Inr False)"

text \<open>
  Lines 373 to 417: the proposal before the line search, and the grid in effect. \<open>buf\<close>
  is the buffer with the solver's solution \<open>cur\<close> appended.
\<close>

definition rna_proposal ::
  "numlib \<Rightarrow> regularized_nonlinear \<Rightarrow> vec list \<Rightarrow> vec \<Rightarrow> objective \<Rightarrow>
   error + (vec \<times> real list)" where
  "rna_proposal lib self buf cur objective =
     ebind (gram buf) (\<lambda>UU.
     ebind (rna_grid lib self UU) (\<lambda>grid.
     ebind (grid_search lib UU (k self) (butlast buf) (functions_list self) (length cur) grid)
       (\<lambda>fvals.
     ebind (bad_extrapolation self fvals objective) (\<lambda>bad.
     if bad then Inr (cur, grid)
     else
       ebind (py_min fvals) (\<lambda>m.
       ebind (coefficients lib UU (k self) (grid ! index_of m fvals)) (\<lambda>c.
       ebind (extrapolation (butlast buf) c (length cur)) (\<lambda>x.
       Inr (x, grid))))))))"

text \<open>Lines 420 to 445: the line search from the first buffered point towards \<open>extrap\<close>.\<close>

definition rna_line_search ::
  "numlib \<Rightarrow> regularized_nonlinear \<Rightarrow> vec list \<Rightarrow> objective \<Rightarrow> vec \<Rightarrow>
   error + (vec \<times> warning list)" where
  "rna_line_search lib self buf objective extrap =
     (let xk = hd buf
      in ebind (np_sub extrap xk) (\<lambda>pk.
         ebind (neg_index objective (k self)) (\<lambda>old.
         (case functions_list self of
            None \<Rightarrow> Inl AttributeError
          | Some fl \<Rightarrow>
             (case line_search_armijo lib (objective_value fl) xk pk pk (sum_list old)
                     (1 / 10000) 1 of
                None \<Rightarrow> Inr (extrap, [Line_search_failed])
              | Some a \<Rightarrow>
                  ebind (np_add xk (smul a pk)) (\<lambda>x.
                  ebind (assign extrap x) (\<lambda>y. Inr (y, []))))))))"

text \<open>The extrapolating branch of \<open>_update_sol\<close>, lines 369 to 451.\<close>

definition rna_extrapolate ::
  "numlib \<Rightarrow> regularized_nonlinear \<Rightarrow> 'a solver_scheme \<Rightarrow> objective \<Rightarrow>
   error + (vec \<times> regularized_nonlinear \<times> warning list)" where
  "rna_extrapolate lib self slv objective =
     (case buffer self of
        None \<Rightarrow> Inl AttributeError
      | Some b \<Rightarrow>
          let buf = b @ [solver.sol slv]
          in ebind (rna_proposal lib self buf (solver.sol slv) objective) (\<lambda>(extrap, grid).
             ebind (if dolinesearch self then rna_line_search lib self buf objective extrap
                    else Inr (extrap, [])) (\<lambda>(x, ws).
             Inr (x,
                  self\<lparr>lambda_grid := Some (if adaptive self then [] else grid),
                       buffer := Some []\<rparr>,
                  ws))))"

text \<open>\<open>regularized_nonlinear._update_sol\<close>\<close>

definition rna_update_sol ::
  "numlib \<Rightarrow> regularized_nonlinear \<Rightarrow> 'a solver_scheme \<Rightarrow> objective \<Rightarrow> nat \<Rightarrow>
   error + (vec \<times> regularized_nonlinear \<times> warning list)" where
  "rna_update_sol lib self slv objective niter =
     (if niter mod (k self + 1) = 0 then rna_extrapolate lib self slv objective
      else
        (case buffer self of
           None \<Rightarrow> Inl AttributeError
         | Some b \<Rightarrow>
             Inr (solver.sol slv, self\<lparr>buffer := Some (b @ [solver.sol slv])\<rparr>, [])))"

text \<open>
  The solver's loop calls \<open>update_sol\<close> once per iteration with consecutive indices. A run
  from index \<open>n\<close> on the solver states and objective histories of the successive calls
  gives, for each call, the returned point and the scheme after it; an exception ends it.
\<close>

fun rna_run ::
  "numlib \<Rightarrow> regularized_nonlinear \<Rightarrow> nat \<Rightarrow> ('a solver_scheme \<times> objective) list \<Rightarrow>
   error + (vec \<times> regularized_nonlinear) list" where
  "rna_run lib self n [] = Inr []"
| "rna_run lib self n (call # calls) =
     ebind (rna_update_sol lib self (fst call) (snd call) n) (\<lambda>(x, self', ws).
     ebind (rna_run lib self' (Suc n) calls) (\<lambda>tr.
     Inr ((x, self') # tr)))"

section \<open>Instances for the examples\<close>

text \<open>
  Objective functions, a solver step and instances of the numerical library on which the
  schemes are evaluated below. \<open>forward_step f y\<close> recomputes the trial point as the
  gradient step from \<open>y\<close> with the solver's current step size.
\<close>

definition constant_one :: func where
  "constant_one =
     \<lparr>eval = (\<lambda>x. 1), grad = (\<lambda>x. map (\<lambda>_. 0) x), cap = (\<lambda>x. [''EVAL'', ''GRAD''])\<rparr>"

definition quadratic :: func where
  "quadratic =
     \<lparr>eval = (\<lambda>x. 2 * sumsq x), grad = (\<lambda>x. smul 4 x), cap = (\<lambda>x. [''EVAL'', ''GRAD''])\<rparr>"

definition forward_step :: "func \<Rightarrow> vec \<Rightarrow> solver \<Rightarrow> solver" where
  "forward_step f y s = s\<lparr>solver.sol := vsub y (smul (step s) (grad f y))\<rparr>"

text \<open>
  Instances of the numerical library. \<open>solve_small\<close> solves systems of one or two
  equations by Cramer's rule and \<open>eigvals_small\<close> gives the eigenvalues of a matrix with
  one entry and of a symmetric matrix with two rows (the roots of its characteristic
  polynomial); larger inputs are not needed below and are refused. \<open>armijo_two_trials\<close> makes
  the first two trials of scipy's Armijo search, the step \<open>alpha0\<close> and the minimiser of
  the quadratic interpolant, each accepted if \<open>phi a \<le> phi0 + c1 * a * derphi0\<close> for
  \<open>phi a = f (xk + a * pk)\<close>; where scipy would go on with cubic interpolation it gives
  up. \<open>no_step\<close> is a line search that finds no step.
\<close>

definition solve_small :: "mat \<Rightarrow> vec \<Rightarrow> error + vec" where
  "solve_small A v =
     (if length A = 1 \<and> length (A ! 0) = 1 \<and> length v = 1
      then (if A ! 0 ! 0 = 0 then Inl LinAlgError else Inr [v ! 0 / A ! 0 ! 0])
      else if length A = 2 \<and> length (A ! 0) = 2 \<and> length (A ! 1) = 2 \<and> length v = 2
      then (let det = A ! 0 ! 0 * A ! 1 ! 1 - A ! 0 ! 1 * A ! 1 ! 0
            in if det = 0 then Inl LinAlgError
               else Inr [(v ! 0 * A ! 1 ! 1 - A ! 0 ! 1 * v ! 1) / det,
                         (A ! 0 ! 0 * v ! 1 - v ! 0 * A ! 1 ! 0) / det])
      else Inl LinAlgError)"

definition eigvals_small :: "mat \<Rightarrow> error + complex list" where
  "eigvals_small A =
     (if length A = 1 \<and> length (A ! 0) = 1 then Inr [complex_of_real (A ! 0 ! 0)]
      else if length A = 2 \<and> length (A ! 0) = 2 \<and> length (A ! 1) = 2
      then (let tr = A ! 0 ! 0 + A ! 1 ! 1;
                det = A ! 0 ! 0 * A ! 1 ! 1 - A ! 0 ! 1 * A ! 1 ! 0;
                disc = sqrt (tr\<^sup>2 - 4 * det)
            in Inr [complex_of_real ((tr - disc) / 2), complex_of_real ((tr + disc) / 2)])
      else Inl LinAlgError)"

definition armijo_two_trials ::
  "(vec \<Rightarrow> real) \<Rightarrow> vec \<Rightarrow> vec \<Rightarrow> vec \<Rightarrow> real \<Rightarrow> real \<Rightarrow> real \<Rightarrow> real option" where
  "armijo_two_trials f xk pk gfk old_fval c1 alpha0 =
     (let phi = (\<lambda>a. f (vadd xk (smul a pk)));
          derphi0 = dot gfk pk;
          phi_a0 = phi alpha0
      in if phi_a0 \<le> old_fval + c1 * alpha0 * derphi0 then Some alpha0
         else
           let alpha1 = - derphi0 * alpha0\<^sup>2 / 2 / (phi_a0 - old_fval - derphi0 * alpha0)
           in if phi alpha1 \<le> old_fval + c1 * alpha1 * derphi0 then Some alpha1 else None)"

definition no_step ::
  "(vec \<Rightarrow> real) \<Rightarrow> vec \<Rightarrow> vec \<Rightarrow> vec \<Rightarrow> real \<Rightarrow> real \<Rightarrow> real \<Rightarrow> real option" where
  "no_step f xk pk gfk old_fval c1 alpha0 = None"

definition small_lib ::
  "((vec \<Rightarrow> real) \<Rightarrow> vec \<Rightarrow> vec \<Rightarrow> vec \<Rightarrow> real \<Rightarrow> real \<Rightarrow> real \<Rightarrow> real option) \<Rightarrow> numlib" where
  "small_lib ls = \<lparr>eigvals = eigvals_small, solve = solve_small, line_search_armijo = ls\<rparr>"

text \<open>
  Two schemes as \<open>pre\<close> leaves them. The first has \<open>k = 1\<close>, is adaptive with a grid of
  two values given by the user, and works on the objective \<open>2 x\<^sup>2\<close>; the second has
  \<open>k = 2\<close> and a fixed grid, and works on the objective \<open>(x - 7/5)\<^sup>2\<close>.
\<close>

definition example_scheme :: regularized_nonlinear where
  "example_scheme =
     \<lparr>accel.sol = Some [2], k = 1, lambda_grid = Some [1, 2], adaptive = True,
      dolinesearch = True, forcedecrease = True, buffer = Some [],
      functions_list = Some [quadratic]\<rparr>"

definition shifted_square :: func where
  "shifted_square =
     \<lparr>eval = (\<lambda>x. sumsq (map (\<lambda>v. v - 7 / 5) x)),
      grad = (\<lambda>x. map (\<lambda>v. 2 * (v - 7 / 5)) x),
      cap = (\<lambda>x. [''EVAL'', ''GRAD''])\<rparr>"

text \<open>
  A third scheme with \<open>k = 2\<close>, adaptive with a grid of two values given by the user,
  without line search and force-decrease, on the objective \<open>||x||\<^sup>2\<close> in the plane, and
  six calls of the solver's loop that visit the points \<open>(0,0)\<close>, \<open>(2,0)\<close>, \<open>(3,2)\<close>
  twice.
\<close>

definition square_norm :: func where
  "square_norm =
     \<lparr>eval = (\<lambda>x. sumsq x), grad = (\<lambda>x. smul 2 x), cap = (\<lambda>x. [''EVAL'', ''GRAD''])\<rparr>"

definition example_adaptive :: regularized_nonlinear where
  "example_adaptive =
     \<lparr>accel.sol = Some [0, 0], k = 2, lambda_grid = Some [1, 2], adaptive = True,
      dolinesearch = False, forcedecrease = False, buffer = Some [],
      functions_list = Some [square_norm]\<rparr>"

definition example_adaptive_calls :: "(solver \<times> objective) list" where
  "example_adaptive_calls =
     [(\<lparr>solver.sol = [0, 0], step = 1\<rparr>, [[0]]),
      (\<lparr>solver.sol = [2, 0], step = 1\<rparr>, [[0], [4]]),
      (\<lparr>solver.sol = [3, 2], step = 1\<rparr>, [[0], [4], [13]]),
      (\<lparr>solver.sol = [0, 0], step = 1\<rparr>, [[0], [4], [13], [0]]),
      (\<lparr>solver.sol = [2, 0], step = 1\<rparr>, [[0], [4], [13], [0], [4]]),
      (\<lparr>solver.sol = [3, 2], step = 1\<rparr>, [[0], [4], [13], [0], [4], [13]])]"

definition example_fixed :: regularized_nonlinear where
  "example_fixed =
     \<lparr>accel.sol = Some [0], k = 2, lambda_grid = Some [1], adaptive = False,
      dolinesearch = True, forcedecrease = True, buffer = Some [],
      functions_list = Some [shifted_square]\<rparr>"

section \<open>Basic facts\<close>

lemma ebind_Inl [simp]: "ebind (Inl e) f = Inl e"
  by (simp add: ebind_def)

lemma ebind_Inr [simp]: "ebind (Inr x) f = f x"
  by (simp add: ebind_def)

lemma ebind_eq_Inr:
  "ebind r f = Inr y \<longleftrightarrow> (\<exists>x. r = Inr x \<and> f x = Inr y)"
  by (cases r) simp_all

lemma np_sub_same_length: "length a = length b \<Longrightarrow> np_sub a b = Inr (vsub a b)"
  by (simp add: np_sub_def)

lemma np_add_same_length: "length a = length b \<Longrightarrow> np_add a b = Inr (vadd a b)"
  by (simp add: np_add_def)

lemma length_vsub: "length a = length b \<Longrightarrow> length (vsub a b) = length a"
  by (simp add: vsub_def)

lemma length_smul [simp]: "length (smul c v) = length v"
  by (simp add: smul_def)

lemma momentum_gt: "s < momentum s"
proof -
  have "(2 * s)\<^sup>2 < 1 + 4 * s\<^sup>2"
    by (simp add: power2_eq_square)
  then have "sqrt ((2 * s)\<^sup>2) < sqrt (1 + 4 * s\<^sup>2)"
    by (simp only: real_sqrt_less_iff)
  then have "\<bar>2 * s\<bar> < sqrt (1 + 4 * s\<^sup>2)"
    by (simp only: real_sqrt_abs)
  then have "2 * s < sqrt (1 + 4 * s\<^sup>2)"
    by linarith
  then show ?thesis
    by (simp add: momentum_def)
qed

section \<open>fista: the momentum recurrence\<close>

text \<open>
  Claim C5. A call of \<open>fista._update_sol\<close> on an initialised scheme whose snapshot has the
  solver's shape works with \<open>t0\<close>, which is 1 when the iteration index is 1 and the stored
  \<open>t\<close> otherwise. It returns \<open>sol + ((t0 - 1) / t1) * (sol - snapshot)\<close> for
  \<open>t1 = (1 + sqrt (1 + 4 * t0\<^sup>2)) / 2\<close>, stores \<open>t1\<close> as the new \<open>t\<close> and the solver's
  solution as the new snapshot; and \<open>t1\<close> is greater than \<open>t0\<close> (for every real \<open>t0\<close>, so
  for every \<open>t0 \<ge> 1\<close>).
\<close>

theorem fista_update_sol_recurrence:
  assumes "accel.sol self = Some snap"
    and "length snap = length (solver.sol slv)"
    and "t0 = (if niter = 1 then 1 else t self)"
  shows "fista_update_sol self slv objective niter =
           Inr (vadd (solver.sol slv)
                  (smul ((t0 - 1) / momentum t0) (vsub (solver.sol slv) snap)),
                self\<lparr>accel.sol := Some (solver.sol slv), t := momentum t0\<rparr>)
         \<and> momentum t0 = (1 + sqrt (1 + 4 * t0\<^sup>2)) / 2
         \<and> t0 < momentum t0
         \<and> (niter = 1 \<longrightarrow> t0 = 1)"
proof -
  have len: "length (solver.sol slv) = length snap"
    using assms(2) by simp
  have d: "np_sub (solver.sol slv) snap = Inr (vsub (solver.sol slv) snap)"
    using len by (rule np_sub_same_length)
  have y: "np_add (solver.sol slv) (smul c (vsub (solver.sol slv) snap)) =
           Inr (vadd (solver.sol slv) (smul c (vsub (solver.sol slv) snap)))" for c
    using len by (simp add: np_add_same_length length_vsub)
  have s: "assign snap (solver.sol slv) = Inr (solver.sol slv)"
    using len by (simp add: assign_def)
  have "fista_update_sol self slv objective niter =
           Inr (vadd (solver.sol slv)
                  (smul ((t0 - 1) / momentum t0) (vsub (solver.sol slv) snap)),
                self\<lparr>accel.sol := Some (solver.sol slv), t := momentum t0\<rparr>)"
    using assms(1,3) by (simp add: fista_update_sol_def Let_def d y s)
  moreover have "momentum t0 = (1 + sqrt (1 + 4 * t0\<^sup>2)) / 2"
    by (simp add: momentum_def)
  moreover have "t0 < momentum t0"
    by (rule momentum_gt)
  moreover have "niter = 1 \<longrightarrow> t0 = 1"
    using assms(3) by simp
  ultimately show ?thesis
    by blast
qed

theorem fista_update_sol_recurrence_witness:
  "fista_update_sol \<lparr>accel.sol = Some [0, 0], t = 7\<rparr> \<lparr>solver.sol = [1, 2], step = 1 / 2\<rparr> [] 1 =
     Inr ([1, 2], \<lparr>accel.sol = Some [1, 2], t = (1 + sqrt 5) / 2\<rparr>)
   \<and> (1::real) < momentum 1"
  using fista_update_sol_recurrence [of "\<lparr>accel.sol = Some [0, 0], t = 7\<rparr>" "[0, 0]"
      "\<lparr>solver.sol = [1, 2], step = 1 / 2\<rparr>" 1 1 "[]"]
  by (simp add: vadd_def vsub_def smul_def momentum_def)

section \<open>backtracking: the range check of the constructor\<close>

text \<open>
  Claim C7. \<open>backtracking.__init__\<close> raises \<open>ValueError\<close> exactly when \<open>eta\<close> is outside
  the interval \<open>(0, 1]\<close>, whatever the other arguments; the check is the constructor's
  first statement. An \<open>eta\<close> in the interval is stored unchanged in the scheme.
\<close>

theorem backtracking_init_eta_range:
  "(backtracking_init eta0 kwargs = Inl ValueError \<longleftrightarrow> \<not> (0 < eta0 \<and> eta0 \<le> 1))
   \<and> (\<forall>b. backtracking_init eta0 kwargs = Inr b \<longrightarrow> eta b = eta0)
   \<and> (0 < eta0 \<and> eta0 \<le> 1 \<longrightarrow>
        backtracking_init eta0 [] = Inr \<lparr>accel.sol = None, eta = eta0, smooth_funs = None\<rparr>)"
  by (auto simp add: backtracking_init_def)

theorem backtracking_init_eta_range_witness:
  "backtracking_init (1 / 2) [] = Inr \<lparr>accel.sol = None, eta = 1 / 2, smooth_funs = None\<rparr>
   \<and> backtracking_init 1 [] = Inr \<lparr>accel.sol = None, eta = 1, smooth_funs = None\<rparr>
   \<and> backtracking_init 0 [] = Inl ValueError
   \<and> backtracking_init (3 / 2) [] = Inl ValueError"
  using backtracking_init_eta_range [of "1 / 2" "[]"] backtracking_init_eta_range [of 1 "[]"]
    backtracking_init_eta_range [of 0 "[]"] backtracking_init_eta_range [of "3 / 2" "[]"]
  by simp

section \<open>backtracking: facts about the loop\<close>

lemma loop_unfold_violated:
  "majorant_violated (step (fst sv)) (snd sv) valn (solver.sol (fst sv)) snap g = Inr True \<Longrightarrow>
   backtracking_loop algo e fs snap valn g sv =
   backtracking_loop algo e fs snap valn g (shrink algo e fs sv)"
  by (subst backtracking_loop.simps) simp

lemma loop_unfold_satisfied:
  "majorant_violated (step (fst sv)) (snd sv) valn (solver.sol (fst sv)) snap g = Inr False \<Longrightarrow>
   backtracking_loop algo e fs snap valn g sv = Some (Inr (fst sv))"
  by (subst backtracking_loop.simps) simp

lemma loop_unfold_error:
  "majorant_violated (step (fst sv)) (snd sv) valn (solver.sol (fst sv)) snap g = Inl err \<Longrightarrow>
   backtracking_loop algo e fs snap valn g sv = Some (Inl err)"
  by (subst backtracking_loop.simps) simp

lemma violated_at_0:
  "violated_at algo e fs snap valn g sv 0 =
   majorant_violated (step (fst sv)) (snd sv) valn (solver.sol (fst sv)) snap g"
  by (simp add: violated_at_def)

lemma violated_at_Suc:
  "violated_at algo e fs snap valn g sv (Suc m) =
   violated_at algo e fs snap valn g (shrink algo e fs sv) m"
  by (simp add: violated_at_def funpow_swap1)

lemma loop_returns:
  "\<forall>i<m. violated_at algo e fs snap valn g sv i = Inr True \<Longrightarrow>
   violated_at algo e fs snap valn g sv m = Inr False \<Longrightarrow>
   backtracking_loop algo e fs snap valn g sv = Some (Inr (fst ((shrink algo e fs ^^ m) sv)))"
proof (induction m arbitrary: sv)
  case 0
  then show ?case
    by (simp add: violated_at_0 loop_unfold_satisfied)
next
  case (Suc m)
  from Suc.prems(1) have v0: "violated_at algo e fs snap valn g sv 0 = Inr True"
    by blast
  have "\<forall>i<m. violated_at algo e fs snap valn g (shrink algo e fs sv) i = Inr True"
    using Suc.prems(1) by (auto simp add: violated_at_Suc [symmetric])
  moreover have "violated_at algo e fs snap valn g (shrink algo e fs sv) m = Inr False"
    using Suc.prems(2) by (simp add: violated_at_Suc)
  ultimately have "backtracking_loop algo e fs snap valn g (shrink algo e fs sv) =
      Some (Inr (fst ((shrink algo e fs ^^ m) (shrink algo e fs sv))))"
    by (rule Suc.IH)
  with v0 show ?case
    by (simp add: violated_at_0 loop_unfold_violated funpow_swap1)
qed

lemma loop_result:
  assumes ret: "backtracking_loop algo e fs snap valn g sv = Some res"
  shows "\<exists>m. (\<forall>i<m. violated_at algo e fs snap valn g sv i = Inr True) \<and>
             (case res of
                Inl err \<Rightarrow> violated_at algo e fs snap valn g sv m = Inl err
              | Inr r \<Rightarrow> violated_at algo e fs snap valn g sv m = Inr False \<and>
                         r = fst ((shrink algo e fs ^^ m) sv))"
proof (rule backtracking_loop.raw_induct [where P = "\<lambda>algo e fs snap valn g sv res.
    \<exists>m. (\<forall>i<m. violated_at algo e fs snap valn g sv i = Inr True) \<and>
             (case res of
                Inl err \<Rightarrow> violated_at algo e fs snap valn g sv m = Inl err
              | Inr r \<Rightarrow> violated_at algo e fs snap valn g sv m = Inr False \<and>
                         r = fst ((shrink algo e fs ^^ m) sv))", OF _ ret])
  fix lp :: "('a solver_scheme \<Rightarrow> 'a solver_scheme) \<Rightarrow> real \<Rightarrow> func list \<Rightarrow> vec \<Rightarrow> real \<Rightarrow> vec \<Rightarrow>
   'a solver_scheme \<times> real \<Rightarrow> (error + 'a solver_scheme) option"
    and algo e fs snap valn g sv res
  assume IH: "\<And>algo e fs snap valn g sv res. lp algo e fs snap valn g sv = Some res \<Longrightarrow>
    \<exists>m. (\<forall>i<m. violated_at algo e fs snap valn g sv i = Inr True) \<and>
             (case res of
                Inl err \<Rightarrow> violated_at algo e fs snap valn g sv m = Inl err
              | Inr r \<Rightarrow> violated_at algo e fs snap valn g sv m = Inr False \<and>
                         r = fst ((shrink algo e fs ^^ m) sv))"
    and eq: "(case majorant_violated (step (fst sv)) (snd sv) valn (solver.sol (fst sv)) snap g of
        Inl err \<Rightarrow> Some (Inl err)
      | Inr b \<Rightarrow>
          if b then lp algo e fs snap valn g (shrink algo e fs sv)
          else Some (Inr (fst sv))) = Some res"
  let ?v = "majorant_violated (step (fst sv)) (snd sv) valn (solver.sol (fst sv)) snap g"
  show "\<exists>m. (\<forall>i<m. violated_at algo e fs snap valn g sv i = Inr True) \<and>
             (case res of
                Inl err \<Rightarrow> violated_at algo e fs snap valn g sv m = Inl err
              | Inr r \<Rightarrow> violated_at algo e fs snap valn g sv m = Inr False \<and>
                         r = fst ((shrink algo e fs ^^ m) sv))"
  proof (cases ?v)
    case (Inl err)
    with eq have "res = Inl err" by simp
    with Inl show ?thesis
      by (intro exI [of _ 0]) (simp add: violated_at_0)
  next
    case (Inr b)
    show ?thesis
    proof (cases b)
      case False
      with Inr eq have "res = Inr (fst sv)" by simp
      with Inr False show ?thesis
        by (intro exI [of _ 0]) (simp add: violated_at_0)
    next
      case True
      with Inr eq have "lp algo e fs snap valn g (shrink algo e fs sv) = Some res" by simp
      from IH [OF this] obtain m where
        m1: "\<forall>i<m. violated_at algo e fs snap valn g (shrink algo e fs sv) i = Inr True"
        and m2: "case res of
                Inl err \<Rightarrow> violated_at algo e fs snap valn g (shrink algo e fs sv) m = Inl err
              | Inr r \<Rightarrow> violated_at algo e fs snap valn g (shrink algo e fs sv) m = Inr False \<and>
                         r = fst ((shrink algo e fs ^^ m) (shrink algo e fs sv))"
        by blast
      have "\<forall>i<Suc m. violated_at algo e fs snap valn g sv i = Inr True"
      proof (intro allI impI)
        fix i assume "i < Suc m"
        show "violated_at algo e fs snap valn g sv i = Inr True"
        proof (cases i)
          case 0
          with Inr True show ?thesis by (simp add: violated_at_0)
        next
          case (Suc j)
          with \<open>i < Suc m\<close> m1 show ?thesis by (simp add: violated_at_Suc)
        qed
      qed
      moreover have "case res of
                Inl err \<Rightarrow> violated_at algo e fs snap valn g sv (Suc m) = Inl err
              | Inr r \<Rightarrow> violated_at algo e fs snap valn g sv (Suc m) = Inr False \<and>
                         r = fst ((shrink algo e fs ^^ Suc m) sv)"
        using m2 by (simp add: violated_at_Suc funpow_swap1 split: sum.splits)
      ultimately show ?thesis
        by blast
    qed
  qed
qed

lemma shrink_step:
  assumes "\<forall>s. step (algo s) = step s"
  shows "step (fst ((shrink algo e fs ^^ m) sv)) = step (fst sv) * e ^ m"
proof (induction m)
  case 0
  show ?case by simp
next
  case (Suc m)
  then show ?case
    using assms by (simp add: shrink_def Let_def)
qed

lemma length_vadd: "length a = length b \<Longrightarrow> length (vadd a b) = length a"
  by (simp add: vadd_def)

lemma smooth_sums_total:
  "\<forall>f\<in>set fs. length (grad f snap) = length g \<Longrightarrow>
   smooth_sums fs cur snap (v, g) =
     Inr (v + sum_list (map (\<lambda>f. eval f cur) fs), foldl vadd g (map (\<lambda>f. grad f snap) fs))"
proof (induction fs arbitrary: v g)
  case Nil
  show ?case by simp
next
  case (Cons f fs)
  have l: "length (grad f snap) = length g"
    using Cons.prems by simp
  then have i: "iadd g (grad f snap) = Inr (vadd g (grad f snap))"
    by (simp add: iadd_def)
  have "\<forall>f'\<in>set fs. length (grad f' snap) = length (vadd g (grad f snap))"
    using Cons.prems l by (simp add: length_vadd)
  from Cons.IH [OF this] show ?case
    by (simp add: i add.assoc)
qed

lemma neg_index_last: "xs \<noteq> [] \<Longrightarrow> neg_index xs (Suc 0) = Inr (last xs)"
  by (cases xs) (auto simp add: neg_index_def last_conv_nth)

lemma loop_diverges:
  assumes "\<forall>m. violated_at algo e fs snap valn g sv m = Inr True"
  shows "backtracking_loop algo e fs snap valn g sv = None"
proof (cases "backtracking_loop algo e fs snap valn g sv")
  case None
  then show ?thesis .
next
  case (Some res)
  from loop_result [OF this] assms show ?thesis
    by (cases res) auto
qed

lemma update_step_unfold:
  assumes "objective \<noteq> []"
    and "smooth_funs self = Some fs" and "accel.sol self = Some snap"
    and "\<forall>f\<in>set fs. length (grad f snap) = length (solver.sol slv)"
  shows "backtracking_update_step algo self slv objective niter =
     map_option (map_sum id (\<lambda>slv'. (step slv', self, slv')))
       (backtracking_loop algo (eta self) fs snap (sum_list (last objective))
          (foldl vadd (replicate (length (solver.sol slv)) 0) (map (\<lambda>f. grad f snap) fs))
          (slv, sum_list (map (\<lambda>f. eval f (solver.sol slv)) fs)))"
proof -
  have "smooth_sums fs (solver.sol slv) snap (0, replicate (length (solver.sol slv)) 0) =
     Inr (0 + sum_list (map (\<lambda>f. eval f (solver.sol slv)) fs),
          foldl vadd (replicate (length (solver.sol slv)) 0) (map (\<lambda>f. grad f snap) fs))"
    by (rule smooth_sums_total) (simp add: assms(4))
  then show ?thesis
    using assms(1-3) by (simp add: backtracking_update_step_def neg_index_last)
qed

lemma example_iterates:
  "shrink (forward_step quadratic [1]) (1 / 2) [quadratic] (\<lparr>solver.sol = [- 3], step = 1\<rparr>, 18) =
     (\<lparr>solver.sol = [- 1], step = 1 / 2\<rparr>, 2)"
  "shrink (forward_step quadratic [1]) (1 / 2) [quadratic] (\<lparr>solver.sol = [- 1], step = 1 / 2\<rparr>, 2) =
     (\<lparr>solver.sol = [0], step = 1 / 4\<rparr>, 0)"
  by (simp_all add: shrink_def forward_step_def quadratic_def vsub_def smul_def sumsq_def Let_def)

lemma example_violated:
  "majorant_violated 1 18 2 [- 3] [1] [4] = Inr True"
  "majorant_violated (1 / 2) 2 2 [- 1] [1] [4] = Inr True"
  "majorant_violated (1 / 4) 0 2 [0] [1] [4] = Inr False"
  by (simp_all add: majorant_violated_def np_sub_def np_dot_def vsub_def dot_def sumsq_def)

section \<open>backtracking: the shrinking loop\<close>

text \<open>
  Claim C6, as amended. Let \<open>valn\<close> be the sum of the most recent objective entry, \<open>valp\<close>
  the sum of the smooth functions' values at the solver's trial solution and \<open>g\<close> the sum
  of their gradients at the snapshot, and let the solver's \<open>_algo\<close> leave the step size
  as it is. Then \<open>_update_step\<close> returns exactly when the inequality
  \<open>2 * step * (valp - valn - <sol - snapshot, g>) > ||sol - snapshot||\<^sup>2\<close> fails after
  some number \<open>m\<close> of passes of the loop body (multiply the step by \<open>eta\<close>, recompute the
  trial point, evaluate \<open>valp\<close> again) and holds before each of them; it then returns the
  initial step times \<open>eta ^ m\<close>. That the inequality ever fails is not guaranteed.
\<close>

theorem backtracking_update_step_shrinks:
  assumes "\<forall>s. step (algo s) = step s"
    and "objective \<noteq> []"
    and "smooth_funs self = Some fs" and "accel.sol self = Some snap"
    and "\<forall>f\<in>set fs. length (grad f snap) = length (solver.sol slv)"
    and "valn = sum_list (last objective)"
    and "valp = sum_list (map (\<lambda>f. eval f (solver.sol slv)) fs)"
    and "g = foldl vadd (replicate (length (solver.sol slv)) 0) (map (\<lambda>f. grad f snap) fs)"
  shows "backtracking_update_step algo self slv objective niter = Some (Inr res) \<longleftrightarrow>
     (\<exists>m. (\<forall>i<m. violated_at algo (eta self) fs snap valn g (slv, valp) i = Inr True)
         \<and> violated_at algo (eta self) fs snap valn g (slv, valp) m = Inr False
         \<and> res = (step slv * eta self ^ m, self,
                  fst ((shrink algo (eta self) fs ^^ m) (slv, valp))))"
    (is "?lhs \<longleftrightarrow> ?rhs")
proof -
  have unfold: "backtracking_update_step algo self slv objective niter =
     map_option (map_sum id (\<lambda>slv'. (step slv', self, slv')))
       (backtracking_loop algo (eta self) fs snap valn g (slv, valp))"
    using update_step_unfold [OF assms(2-5)] assms(6-8) by simp
  have stp: "step (fst ((shrink algo (eta self) fs ^^ m) (slv, valp))) = step slv * eta self ^ m" for m
    using shrink_step [OF assms(1), where e = "eta self" and fs = fs and m = m and sv = "(slv, valp)"]
    by simp
  show ?thesis
  proof
    assume ?lhs
    then obtain r where loop: "backtracking_loop algo (eta self) fs snap valn g (slv, valp) = Some r"
      and r: "map_sum id (\<lambda>slv'. (step slv', self, slv')) r = Inr res"
      by (auto simp add: unfold)
    from r obtain slv' where r': "r = Inr slv'" and res: "res = (step slv', self, slv')"
      by (cases r) auto
    from loop_result [OF loop] r' obtain m where
      "\<forall>i<m. violated_at algo (eta self) fs snap valn g (slv, valp) i = Inr True"
      "violated_at algo (eta self) fs snap valn g (slv, valp) m = Inr False"
      "slv' = fst ((shrink algo (eta self) fs ^^ m) (slv, valp))"
      by auto
    with res stp [of m] show ?rhs
      by blast
  next
    assume ?rhs
    then obtain m where
      m1: "\<forall>i<m. violated_at algo (eta self) fs snap valn g (slv, valp) i = Inr True"
      and m2: "violated_at algo (eta self) fs snap valn g (slv, valp) m = Inr False"
      and res: "res = (step slv * eta self ^ m, self,
                  fst ((shrink algo (eta self) fs ^^ m) (slv, valp)))"
      by blast
    from loop_returns [OF m1 m2] res stp [of m] show ?lhs
      by (simp add: unfold)
  qed
qed

theorem backtracking_update_step_shrinks_witness:
  "backtracking_update_step (forward_step quadratic [1])
     \<lparr>accel.sol = Some [1], eta = 1 / 2, smooth_funs = Some [quadratic]\<rparr>
     \<lparr>solver.sol = [- 3], step = 1\<rparr> [[2]] 1 =
   Some (Inr (1 * (1 / 2) ^ 2, \<lparr>accel.sol = Some [1], eta = 1 / 2, smooth_funs = Some [quadratic]\<rparr>,
              \<lparr>solver.sol = [0], step = 1 / 4\<rparr>))"
proof -
  let ?algo = "forward_step quadratic [1]"
  let ?self = "\<lparr>accel.sol = Some [1], eta = 1 / 2, smooth_funs = Some [quadratic]\<rparr>"
  let ?slv = "\<lparr>solver.sol = [- 3], step = 1\<rparr>"
  have a: "\<forall>s. step (?algo s) = step s"
    by (simp add: forward_step_def)
  have v: "\<forall>i<2. violated_at ?algo (1 / 2) [quadratic] [1] 2 [4] (?slv, 18) i = Inr True"
    by (simp add: violated_at_def example_iterates example_violated less_Suc_eq numeral_2_eq_2)
  have w: "violated_at ?algo (1 / 2) [quadratic] [1] 2 [4] (?slv, 18) 2 = Inr False"
    by (simp add: violated_at_def example_iterates example_violated numeral_2_eq_2)
  have it: "(shrink ?algo (1 / 2) [quadratic] ^^ 2) (?slv, 18) = (\<lparr>solver.sol = [0], step = 1 / 4\<rparr>, 0)"
    by (simp add: example_iterates numeral_2_eq_2)
  have fs: "\<forall>f\<in>set [quadratic]. length (grad f [1]) = length (solver.sol ?slv)"
    by (simp add: quadratic_def)
  have valp: "(18::real) = sum_list (map (\<lambda>f. eval f (solver.sol ?slv)) [quadratic])"
    by (simp add: quadratic_def sumsq_def)
  have g: "[4] = foldl vadd (replicate (length (solver.sol ?slv)) 0) (map (\<lambda>f. grad f [1]) [quadratic])"
    by (simp add: quadratic_def smul_def vadd_def)
  have valn: "(2::real) = sum_list (last [[2]])"
    by simp
  have "backtracking_update_step ?algo ?self ?slv [[2]] 1 =
      Some (Inr (step ?slv * eta ?self ^ 2, ?self, fst ((shrink ?algo (eta ?self) [quadratic] ^^ 2) (?slv, 18))))"
    by (rule iffD2 [OF backtracking_update_step_shrinks [OF a _ _ _ fs valn valp g]])
       (use v w in auto)
  then show ?thesis
    by (simp add: it)
qed

text \<open>
  The loop need not end: with \<open>eta = 1\<close> (which the constructor accepts), the constant
  function 1 as the smooth part and a most recent objective entry that sums to 0, the
  inequality reads \<open>2 * step > 0\<close> at every pass, and the call never returns.
\<close>

theorem backtracking_update_step_may_not_return:
  "backtracking_update_step (forward_step constant_one [0])
     \<lparr>accel.sol = Some [0], eta = 1, smooth_funs = Some [constant_one]\<rparr>
     \<lparr>solver.sol = [0], step = 1\<rparr> [[1, - 1]] 1 = None"
proof -
  let ?algo = "forward_step constant_one [0]"
  let ?sv = "(\<lparr>solver.sol = [0], step = 1\<rparr>, 1::real)"
  have fixed: "shrink ?algo 1 [constant_one] ?sv = ?sv"
    by (simp add: shrink_def forward_step_def constant_one_def vsub_def smul_def Let_def)
  have pow: "(shrink ?algo 1 [constant_one] ^^ m) ?sv = ?sv" for m
    by (induction m) (simp_all add: fixed)
  have "violated_at ?algo 1 [constant_one] [0] 0 [0] ?sv m = Inr True" for m
    by (simp add: violated_at_def pow Let_def)
       (simp add: majorant_violated_def np_sub_def np_dot_def vsub_def dot_def sumsq_def)
  then have "backtracking_loop ?algo 1 [constant_one] [0] 0 [0] ?sv = None"
    by (intro loop_diverges) simp
  then show ?thesis
    by (simp add: backtracking_update_step_def neg_index_def constant_one_def iadd_def vadd_def)
qed

lemma map_option_sum_Inr:
  "map_option (map_sum id f) x = Some (Inr y) \<Longrightarrow> \<exists>s. x = Some (Inr s) \<and> y = f s"
  by (cases x; simp) (metis id_apply map_sum.simps old.sum.exhaust sum.distinct(1) sum.inject(2))

text \<open>
  Claim C10. When \<open>_update_step\<close> returns, the step size stored in the solver is the
  returned value, and the scheme (\<open>eta\<close>, \<open>smooth_funs\<close>, the snapshot \<open>sol\<close>) is as it
  was before the call.
\<close>

theorem backtracking_update_step_frame:
  assumes "backtracking_update_step algo self slv objective niter = Some (Inr (r, self', slv'))"
  shows "step slv' = r \<and> self' = self"
proof -
  from assms obtain x :: "(error + 'a solver_scheme) option" where
    "map_option (map_sum id (\<lambda>s. (step s, self, s))) x = Some (Inr (r, self', slv'))"
    by (simp add: backtracking_update_step_def split: sum.splits option.splits prod.splits)
  from map_option_sum_Inr [OF this] show ?thesis
    by auto
qed

lemma backtracking_example_run:
  "backtracking_update_step (forward_step quadratic [1])
     \<lparr>accel.sol = Some [1], eta = 1 / 2, smooth_funs = Some [quadratic]\<rparr>
     \<lparr>solver.sol = [- 3], step = 1\<rparr> [[2]] 1 =
   Some (Inr (1 / 4, \<lparr>accel.sol = Some [1], eta = 1 / 2, smooth_funs = Some [quadratic]\<rparr>,
              \<lparr>solver.sol = [0], step = 1 / 4\<rparr>))"
proof -
  let ?algo = "forward_step quadratic [1]"
  let ?slv = "\<lparr>solver.sol = [- 3], step = 1\<rparr>"
  have v: "\<forall>i<2. violated_at ?algo (1 / 2) [quadratic] [1] 2 [4] (?slv, 18) i = Inr True"
    by (simp add: violated_at_def example_iterates example_violated less_Suc_eq numeral_2_eq_2)
  have w: "violated_at ?algo (1 / 2) [quadratic] [1] 2 [4] (?slv, 18) 2 = Inr False"
    by (simp add: violated_at_def example_iterates example_violated numeral_2_eq_2)
  have it: "(shrink ?algo (1 / 2) [quadratic] ^^ 2) (?slv, 18) = (\<lparr>solver.sol = [0], step = 1 / 4\<rparr>, 0)"
    by (simp add: example_iterates numeral_2_eq_2)
  have "backtracking_loop ?algo (1 / 2) [quadratic] [1] 2 [4] (?slv, 18) =
      Some (Inr \<lparr>solver.sol = [0], step = 1 / 4\<rparr>)"
    using loop_returns [OF v w] by (simp add: it)
  then show ?thesis
    by (simp add: backtracking_update_step_def neg_index_def quadratic_def iadd_def vadd_def
        smul_def sumsq_def)
qed

theorem backtracking_update_step_frame_witness:
  "backtracking_update_step (forward_step quadratic [1])
     \<lparr>accel.sol = Some [1], eta = 1 / 2, smooth_funs = Some [quadratic]\<rparr>
     \<lparr>solver.sol = [- 3], step = 1\<rparr> [[2]] 1 =
   Some (Inr (1 / 4, \<lparr>accel.sol = Some [1], eta = 1 / 2, smooth_funs = Some [quadratic]\<rparr>,
              \<lparr>solver.sol = [0], step = 1 / 4\<rparr>))
   \<and> step \<lparr>solver.sol = [0], step = 1 / 4\<rparr> = 1 / 4"
  using backtracking_update_step_frame [OF backtracking_example_run] backtracking_example_run
  by simp

section \<open>regularized\_nonlinear: facts about one call and about runs\<close>

lemma ebind_pair_eq_Inr:
  "ebind r (\<lambda>(a, b). f a b) = Inr y \<longleftrightarrow> (\<exists>a b. r = Inr (a, b) \<and> f a b = Inr y)"
  by (cases r) auto

lemma rna_proposal_grid:
  assumes "rna_proposal lib self buf cur objective = Inr (x, grid)"
  shows "\<exists>UU. gram buf = Inr UU \<and> rna_grid lib self UU = Inr grid"
proof -
  from assms obtain UU where g: "gram buf = Inr UU"
    and r1: "ebind (rna_grid lib self UU) (\<lambda>grid.
     ebind (grid_search lib UU (k self) (butlast buf) (functions_list self) (length cur) grid)
       (\<lambda>fvals.
     ebind (bad_extrapolation self fvals objective) (\<lambda>bad.
     if bad then Inr (cur, grid)
     else
       ebind (py_min fvals) (\<lambda>m.
       ebind (coefficients lib UU (k self) (grid ! index_of m fvals)) (\<lambda>c.
       ebind (extrapolation (butlast buf) c (length cur)) (\<lambda>x.
       Inr (x, grid))))))) = Inr (x, grid)"
    unfolding rna_proposal_def ebind_eq_Inr by blast
  from r1 obtain grid' where g': "rna_grid lib self UU = Inr grid'"
    and r2: "ebind (grid_search lib UU (k self) (butlast buf) (functions_list self) (length cur) grid')
       (\<lambda>fvals.
     ebind (bad_extrapolation self fvals objective) (\<lambda>bad.
     if bad then Inr (cur, grid')
     else
       ebind (py_min fvals) (\<lambda>m.
       ebind (coefficients lib UU (k self) (grid' ! index_of m fvals)) (\<lambda>c.
       ebind (extrapolation (butlast buf) c (length cur)) (\<lambda>x.
       Inr (x, grid')))))) = Inr (x, grid)"
    unfolding ebind_eq_Inr by blast
  from r2 have "grid' = grid"
    by (auto simp add: ebind_eq_Inr split: if_splits)
  with g g' show ?thesis
    by blast
qed

lemma rna_grid_fixed:
  "\<not> adaptive self \<Longrightarrow> rna_grid lib self UU = Inr grid \<Longrightarrow> lambda_grid self = Some grid"
  by (auto simp add: rna_grid_def split: option.splits)

lemma rna_extrapolate_result:
  assumes "rna_extrapolate lib self slv objective = Inr (x, self', ws)"
  shows "\<exists>b extrap grid.
           buffer self = Some b \<and>
           rna_proposal lib self (b @ [solver.sol slv]) (solver.sol slv) objective =
             Inr (extrap, grid) \<and>
           (if dolinesearch self
            then rna_line_search lib self (b @ [solver.sol slv]) objective extrap
            else Inr (extrap, [])) = Inr (x, ws) \<and>
           self' = self\<lparr>lambda_grid := Some (if adaptive self then [] else grid),
                        buffer := Some []\<rparr>"
proof -
  from assms obtain b where b: "buffer self = Some b"
    by (auto simp add: rna_extrapolate_def split: option.splits)
  let ?buf = "b @ [solver.sol slv]"
  let ?ls = "\<lambda>extrap. if dolinesearch self
            then rna_line_search lib self ?buf objective extrap
            else Inr (extrap, [])"
  from assms b have "ebind (rna_proposal lib self ?buf (solver.sol slv) objective)
      (\<lambda>(extrap, grid). ebind (?ls extrap) (\<lambda>(x, ws).
         Inr (x, self\<lparr>lambda_grid := Some (if adaptive self then [] else grid),
                       buffer := Some []\<rparr>, ws))) = Inr (x, self', ws)"
    by (simp add: rna_extrapolate_def Let_def)
  then obtain extrap grid where
    p: "rna_proposal lib self ?buf (solver.sol slv) objective = Inr (extrap, grid)"
    and r: "ebind (?ls extrap) (\<lambda>(x, ws).
         Inr (x, self\<lparr>lambda_grid := Some (if adaptive self then [] else grid),
                       buffer := Some []\<rparr>, ws)) = Inr (x, self', ws)"
    unfolding ebind_pair_eq_Inr by blast
  from r have "?ls extrap = Inr (x, ws)"
    and "self' = self\<lparr>lambda_grid := Some (if adaptive self then [] else grid),
                       buffer := Some []\<rparr>"
    unfolding ebind_pair_eq_Inr by auto
  with b p show ?thesis
    by blast
qed

lemma rna_update_sol_gather:
  "niter mod (k self + 1) \<noteq> 0 \<Longrightarrow> buffer self = Some b \<Longrightarrow>
   rna_update_sol lib self slv objective niter =
     Inr (solver.sol slv, self\<lparr>buffer := Some (b @ [solver.sol slv])\<rparr>, [])"
  by (simp add: rna_update_sol_def)

lemma rna_update_sol_extrapolate:
  "niter mod (k self + 1) = 0 \<Longrightarrow>
   rna_update_sol lib self slv objective niter = rna_extrapolate lib self slv objective"
  by (simp add: rna_update_sol_def)

lemma rna_update_sol_state:
  assumes "rna_update_sol lib self slv objective niter = Inr (x, self', ws)"
  shows "k self' = k self \<and> adaptive self' = adaptive self
         \<and> (\<exists>b. buffer self = Some b \<and>
               buffer self' = Some (if niter mod (k self + 1) = 0 then []
                                    else b @ [solver.sol slv]))
         \<and> lambda_grid self' =
             (if niter mod (k self + 1) = 0 \<and> adaptive self then Some [] else lambda_grid self)"
proof (cases "niter mod (k self + 1) = 0")
  case True
  with assms have "rna_extrapolate lib self slv objective = Inr (x, self', ws)"
    by (simp add: rna_update_sol_extrapolate)
  from rna_extrapolate_result [OF this] obtain b extrap grid where
    b: "buffer self = Some b"
    and p: "rna_proposal lib self (b @ [solver.sol slv]) (solver.sol slv) objective =
             Inr (extrap, grid)"
    and s: "self' = self\<lparr>lambda_grid := Some (if adaptive self then [] else grid),
                        buffer := Some []\<rparr>"
    by blast
  from rna_proposal_grid [OF p] obtain UU where "rna_grid lib self UU = Inr grid"
    by blast
  then have "\<not> adaptive self \<Longrightarrow> lambda_grid self = Some grid"
    by (rule rna_grid_fixed [rotated])
  with True b s show ?thesis
    by auto
next
  case False
  with assms show ?thesis
    by (auto simp add: rna_update_sol_def split: option.splits)
qed

lemma rna_run_length:
  "rna_run lib self n calls = Inr tr \<Longrightarrow> length tr = length calls"
proof (induction calls arbitrary: self n tr)
  case Nil
  then show ?case by simp
next
  case (Cons call calls)
  then show ?case
    by (auto simp add: ebind_eq_Inr)
qed

lemma rna_run_nth:
  assumes "rna_run lib self n calls = Inr tr" and "j < length calls"
  shows "\<exists>ws. rna_update_sol lib (if j = 0 then self else snd (tr ! (j - 1)))
                (fst (calls ! j)) (snd (calls ! j)) (n + j) =
              Inr (fst (tr ! j), snd (tr ! j), ws)"
  using assms
proof (induction calls arbitrary: self n tr j)
  case Nil
  then show ?case by simp
next
  case (Cons call calls)
  from Cons.prems(1) obtain x self' ws tr' where
    u: "rna_update_sol lib self (fst call) (snd call) n = Inr (x, self', ws)"
    and r: "rna_run lib self' (Suc n) calls = Inr tr'"
    and t: "tr = (x, self') # tr'"
    by (auto simp add: ebind_eq_Inr)
  show ?case
  proof (cases j)
    case 0
    with u t show ?thesis by auto
  next
    case (Suc i)
    with Cons.prems(2) have "i < length calls" by simp
    from Cons.IH [OF r this] obtain ws' where
      "rna_update_sol lib (if i = 0 then self' else snd (tr' ! (i - 1)))
                (fst (calls ! i)) (snd (calls ! i)) (Suc n + i) =
              Inr (fst (tr' ! i), snd (tr' ! i), ws')"
      by blast
    moreover have "(if i = 0 then self' else snd (tr' ! (i - 1))) = snd (tr ! (Suc i - 1))"
      using t by (cases i) auto
    ultimately show ?thesis
      using Suc t by auto
  qed
qed

lemma rna_run_invariant:
  assumes run: "rna_run lib self (Suc n) calls = Inr tr"
    and j: "j < length calls"
    and b0: "buffer self = Some b0" "length b0 = n mod (k self + 1)"
  shows "k (snd (tr ! j)) = k self \<and> adaptive (snd (tr ! j)) = adaptive self
         \<and> (\<exists>b. buffer (snd (tr ! j)) = Some b \<and> length b = (Suc n + j) mod (k self + 1))"
  using j
proof (induction j)
  case 0
  from rna_run_nth [OF run 0] obtain ws where
    "rna_update_sol lib self (fst (calls ! 0)) (snd (calls ! 0)) (Suc n) =
       Inr (fst (tr ! 0), snd (tr ! 0), ws)"
    by auto
  from rna_update_sol_state [OF this] b0 show ?case
    by (auto simp add: mod_Suc)
next
  case (Suc j)
  then have jl: "j < length calls" by simp
  from Suc.IH [OF jl] obtain b where
    kk: "k (snd (tr ! j)) = k self" and ad: "adaptive (snd (tr ! j)) = adaptive self"
    and b: "buffer (snd (tr ! j)) = Some b" "length b = (Suc n + j) mod (k self + 1)"
    by blast
  from rna_run_nth [OF run Suc.prems] obtain ws where
    "rna_update_sol lib (snd (tr ! j)) (fst (calls ! Suc j)) (snd (calls ! Suc j))
       (Suc n + Suc j) = Inr (fst (tr ! Suc j), snd (tr ! Suc j), ws)"
    by auto
  from rna_update_sol_state [OF this] kk ad b show ?case
    by (auto simp add: mod_Suc)
qed

lemma rna_run_prev:
  assumes run: "rna_run lib self0 (Suc 0) calls = Inr tr"
    and j: "j < length calls"
    and b0: "buffer self0 = Some []"
    and prev: "prev = (if j = 0 then self0 else snd (tr ! (j - 1)))"
  shows "k prev = k self0 \<and> adaptive prev = adaptive self0
         \<and> (\<exists>b. buffer prev = Some b \<and> length b = j mod (k self0 + 1))"
proof (cases j)
  case 0
  with b0 prev show ?thesis by simp
next
  case (Suc i)
  with j have "i < length calls" by simp
  from rna_run_invariant [OF run this, of "[]"] b0 Suc prev show ?thesis
    by simp
qed

lemma rna_run_fields:
  assumes run: "rna_run lib self0 (Suc 0) calls = Inr tr"
  shows "j < length calls \<Longrightarrow>
         k (snd (tr ! j)) = k self0 \<and> adaptive (snd (tr ! j)) = adaptive self0"
proof (induction j)
  case 0
  from rna_run_nth [OF run 0] obtain ws where
    "rna_update_sol lib self0 (fst (calls ! 0)) (snd (calls ! 0)) (Suc 0) =
       Inr (fst (tr ! 0), snd (tr ! 0), ws)"
    by auto
  from rna_update_sol_state [OF this] show ?case
    by simp
next
  case (Suc j)
  then have IH: "k (snd (tr ! j)) = k self0 \<and> adaptive (snd (tr ! j)) = adaptive self0"
    by simp
  from rna_run_nth [OF run Suc.prems] obtain ws where
    "rna_update_sol lib (snd (tr ! j)) (fst (calls ! Suc j)) (snd (calls ! Suc j))
       (Suc 0 + Suc j) = Inr (fst (tr ! Suc j), snd (tr ! Suc j), ws)"
    by auto
  from rna_update_sol_state [OF this] IH show ?case
    by simp
qed

lemma rna_run_grid_step:
  assumes run: "rna_run lib self0 (Suc 0) calls = Inr tr" and j: "j < length calls"
  shows "lambda_grid (snd (tr ! j)) =
           (if Suc j mod (k self0 + 1) = 0 \<and> adaptive self0 then Some []
            else lambda_grid (if j = 0 then self0 else snd (tr ! (j - 1))))"
proof -
  let ?prev = "if j = 0 then self0 else snd (tr ! (j - 1))"
  from rna_run_nth [OF run j] obtain ws where
    call: "rna_update_sol lib ?prev (fst (calls ! j)) (snd (calls ! j)) (Suc 0 + j) =
       Inr (fst (tr ! j), snd (tr ! j), ws)"
    by blast
  have "k ?prev = k self0 \<and> adaptive ?prev = adaptive self0"
  proof (cases j)
    case 0
    then show ?thesis by simp
  next
    case (Suc i)
    with j have "i < length calls" by simp
    from rna_run_fields [OF run this] Suc show ?thesis by simp
  qed
  with rna_update_sol_state [OF call] show ?thesis
    by simp
qed

lemma rna_run_grid_cleared:
  assumes run: "rna_run lib self0 (Suc 0) calls = Inr tr" and ad: "adaptive self0"
  shows "j < length calls \<Longrightarrow> k self0 \<le> j \<Longrightarrow> lambda_grid (snd (tr ! j)) = Some []"
proof (induction j)
  case 0
  then have "Suc 0 mod (k self0 + 1) = 0" by simp
  with rna_run_grid_step [OF run 0(1)] ad show ?case
    by simp
next
  case (Suc j)
  show ?case
  proof (cases "Suc (Suc j) mod (k self0 + 1) = 0")
    case True
    with rna_run_grid_step [OF run Suc.prems(1)] ad show ?thesis
      by simp
  next
    case False
    then have "k self0 \<noteq> Suc j"
      by auto
    with Suc.prems have "k self0 \<le> j" and "j < length calls"
      by simp_all
    then have "lambda_grid (snd (tr ! j)) = Some []"
      using Suc.IH by simp
    with rna_run_grid_step [OF run Suc.prems(1)] False show ?thesis
      by simp
  qed
qed

lemma rna_run_grid_fixed:
  assumes run: "rna_run lib self0 (Suc 0) calls = Inr tr" and ad: "\<not> adaptive self0"
  shows "j < length calls \<Longrightarrow> lambda_grid (snd (tr ! j)) = lambda_grid self0"
proof (induction j)
  case 0
  with rna_run_grid_step [OF run 0] ad show ?case
    by simp
next
  case (Suc j)
  then have "lambda_grid (snd (tr ! j)) = lambda_grid self0"
    by simp
  with rna_run_grid_step [OF run Suc.prems] ad show ?case
    by simp
qed

lemma log_mean_positive: "0 < a \<Longrightarrow> 0 < c \<Longrightarrow> log_mean a c = exp ((ln a + ln c) / 2)"
  by (simp add: log_mean_def)

lemma gram_rows:
  "gram buf = Inr UU \<Longrightarrow> r \<in> set buf \<Longrightarrow> length r = length (hd buf)"
  by (auto simp add: gram_def list_all_iff split: if_splits)

lemma extrapolation_length: "extrapolation rows c n = Inr x \<Longrightarrow> length x = n"
  by (auto simp add: extrapolation_def split: if_splits)

lemma rna_proposal_length:
  assumes "rna_proposal lib self buf cur objective = Inr (x, grid)"
  shows "length x = length cur"
proof -
  from assms obtain UU grid' fvals bad where
    r: "(if bad then Inr (cur, grid')
     else
       ebind (py_min fvals) (\<lambda>m.
       ebind (coefficients lib UU (k self) (grid' ! index_of m fvals)) (\<lambda>c.
       ebind (extrapolation (butlast buf) c (length cur)) (\<lambda>x.
       Inr (x, grid'))))) = Inr (x, grid)"
    unfolding rna_proposal_def ebind_eq_Inr by blast
  show ?thesis
  proof (cases bad)
    case True
    with r show ?thesis by simp
  next
    case False
    with r obtain c where "extrapolation (butlast buf) c (length cur) = Inr x"
      by (auto simp add: ebind_eq_Inr)
    then show ?thesis
      by (rule extrapolation_length)
  qed
qed

lemma rna_extrapolate_unset_grid:
  assumes "lambda_grid self = None" and "buffer self = Some b"
    and "gram (b @ [solver.sol slv]) = Inr UU"
  shows "rna_extrapolate lib self slv objective = Inl AttributeError"
  using assms by (simp add: rna_extrapolate_def rna_proposal_def rna_grid_def)

section \<open>regularized\_nonlinear: the examples evaluated\<close>

lemma example_gram: "gram [[2], [1]] = Inr [[1]]"
  by (simp add: gram_def vsub_def dot_def sumsq_def)

lemma example_coefficients:
  "coefficients (small_lib ls) [[1]] (Suc 0) 1 = Inr [1]"
  "coefficients (small_lib ls) [[1]] (Suc 0) 2 = Inr [1]"
  by (simp_all add: coefficients_def regularized_def small_lib_def solve_small_def assign_def)

lemma example_extrapolation: "extrapolation [[2]] [1] (Suc 0) = Inr [2]"
  by (simp add: extrapolation_def)

lemma example_grid_search:
  "grid_search (small_lib ls) [[1]] (Suc 0) [[2]] (Some [quadratic]) (Suc 0) [1, 2] = Inr [8, 8]"
  by (simp add: example_coefficients example_extrapolation objective_value_def quadratic_def
      sumsq_def)

lemma example_proposal:
  "rna_proposal (small_lib ls) (example_scheme\<lparr>buffer := Some [[2]]\<rparr>) [[2], [1]] [1] [[8], [2]] =
     Inr ([1], [1, 2])"
  by (simp add: rna_proposal_def example_gram rna_grid_def example_scheme_def
      example_coefficients example_extrapolation objective_value_def quadratic_def sumsq_def
      bad_extrapolation_def py_min_def neg_index_def)

lemma example_line_search:
  "rna_line_search (small_lib armijo_two_trials) (example_scheme\<lparr>buffer := Some [[2]]\<rparr>) [[2], [1]] [[8], [2]] [1] =
     Inr ([1], [])"
  by (simp add: rna_line_search_def example_scheme_def np_sub_def vsub_def neg_index_def
      small_lib_def armijo_two_trials_def objective_value_def quadratic_def sumsq_def
      vadd_def smul_def dot_def np_add_def assign_def Let_def)

lemma example_call_1:
  "rna_update_sol (small_lib armijo_two_trials) example_scheme \<lparr>solver.sol = [2], step = 1\<rparr> [[8]] (Suc 0) =
     Inr ([2], example_scheme\<lparr>buffer := Some [[2]]\<rparr>, [])"
  by (simp add: rna_update_sol_def example_scheme_def)

lemma example_call_2:
  "rna_update_sol (small_lib armijo_two_trials) (example_scheme\<lparr>buffer := Some [[2]]\<rparr>)
     \<lparr>solver.sol = [1], step = 1\<rparr> [[8], [2]] (Suc (Suc 0)) =
     Inr ([1], example_scheme\<lparr>lambda_grid := Some [], buffer := Some []\<rparr>, [])"
proof -
  have "rna_extrapolate (small_lib armijo_two_trials) (example_scheme\<lparr>buffer := Some [[2]]\<rparr>)
     \<lparr>solver.sol = [1], step = 1\<rparr> [[8], [2]] =
     Inr ([1], example_scheme\<lparr>lambda_grid := Some [], buffer := Some []\<rparr>, [])"
    by (simp add: rna_extrapolate_def example_proposal example_line_search)
       (simp add: example_scheme_def)
  then show ?thesis
    by (simp add: rna_update_sol_def example_scheme_def)
qed

lemma example_run:
  "rna_run (small_lib armijo_two_trials) example_scheme 1
     [(\<lparr>solver.sol = [2], step = 1\<rparr>, [[8]]), (\<lparr>solver.sol = [1], step = 1\<rparr>, [[8], [2]])] =
   Inr [([2], example_scheme\<lparr>buffer := Some [[2]]\<rparr>),
        ([1], example_scheme\<lparr>lambda_grid := Some [], buffer := Some []\<rparr>)]"
  by (simp add: example_call_1 example_call_2)

lemma example_fixed_gram: "gram [[0], [1], [2]] = Inr [[1 / 2, 1 / 2], [1 / 2, 1 / 2]]"
proof -
  have "sqrt 4 = 2"
    by (rule real_sqrt_unique) simp_all
  then show ?thesis
    by (simp add: gram_def vsub_def dot_def sumsq_def)
qed

lemma example_fixed_coefficients:
  "coefficients (small_lib ls) [[1 / 2, 1 / 2], [1 / 2, 1 / 2]] 2 1 = Inr [1 / 2, 1 / 2]"
  by (simp add: coefficients_def regularized_def small_lib_def solve_small_def assign_def
      numeral_2_eq_2 Let_def)

lemma example_fixed_extrapolation:
  "extrapolation [[0], [1]] [1 / 2, 1 / 2] (Suc 0) = Inr [1 / 2]"
  by (simp add: extrapolation_def)

lemma example_fixed_proposal:
  "rna_proposal (small_lib ls) (example_fixed\<lparr>buffer := Some [[0], [1]]\<rparr>) [[0], [1], [2]] [2]
     [[49 / 25], [4 / 25], [9 / 25]] = Inr ([2], [1])"
  by (simp add: rna_proposal_def example_fixed_gram rna_grid_def example_fixed_def
      example_fixed_coefficients example_fixed_extrapolation objective_value_def
      shifted_square_def sumsq_def bad_extrapolation_def py_min_def neg_index_def
      power2_eq_square)

lemma example_fixed_armijo:
  "armijo_two_trials (objective_value [shifted_square]) [0] [2] [2] (4 / 25) (1 / 10000) 1 =
     Some (10 / 19)"
  by (simp add: armijo_two_trials_def objective_value_def shifted_square_def sumsq_def
      vadd_def smul_def dot_def Let_def power2_eq_square)

lemma example_fixed_line_search:
  "rna_line_search (small_lib armijo_two_trials) (example_fixed\<lparr>buffer := Some [[0], [1]]\<rparr>) [[0], [1], [2]]
     [[49 / 25], [4 / 25], [9 / 25]] [2] = Inr ([20 / 19], [])"
  by (simp add: rna_line_search_def example_fixed_def np_sub_def vsub_def neg_index_def
      small_lib_def example_fixed_armijo np_add_def vadd_def smul_def assign_def)

lemma example_fixed_call_3:
  "rna_update_sol (small_lib armijo_two_trials) (example_fixed\<lparr>buffer := Some [[0], [1]]\<rparr>)
     \<lparr>solver.sol = [2], step = 1\<rparr> [[49 / 25], [4 / 25], [9 / 25]] (Suc (Suc (Suc 0))) =
   Inr ([20 / 19], example_fixed, [])"
proof -
  have "rna_extrapolate (small_lib armijo_two_trials) (example_fixed\<lparr>buffer := Some [[0], [1]]\<rparr>)
     \<lparr>solver.sol = [2], step = 1\<rparr> [[49 / 25], [4 / 25], [9 / 25]] =
     Inr ([20 / 19], example_fixed, [])"
    by (simp add: rna_extrapolate_def example_fixed_proposal example_fixed_line_search)
       (simp add: example_fixed_def)
  then show ?thesis
    by (simp add: rna_update_sol_def example_fixed_def)
qed

lemma example_fixed_run:
  "rna_run (small_lib armijo_two_trials) example_fixed 1
     [(\<lparr>solver.sol = [0], step = 1\<rparr>, [[49 / 25]]),
      (\<lparr>solver.sol = [1], step = 1\<rparr>, [[49 / 25], [4 / 25]]),
      (\<lparr>solver.sol = [2], step = 1\<rparr>, [[49 / 25], [4 / 25], [9 / 25]])] =
   Inr [([0], example_fixed\<lparr>buffer := Some [[0]]\<rparr>),
        ([1], example_fixed\<lparr>buffer := Some [[0], [1]]\<rparr>),
        ([20 / 19], example_fixed)]"
proof -
  have 1: "rna_update_sol (small_lib armijo_two_trials) example_fixed \<lparr>solver.sol = [0], step = 1\<rparr> [[49 / 25]]
      (Suc 0) = Inr ([0], example_fixed\<lparr>buffer := Some [[0]]\<rparr>, [])"
    by (simp add: rna_update_sol_def example_fixed_def)
  have 2: "rna_update_sol (small_lib armijo_two_trials) (example_fixed\<lparr>buffer := Some [[0]]\<rparr>)
      \<lparr>solver.sol = [1], step = 1\<rparr> [[49 / 25], [4 / 25]] (Suc (Suc 0)) =
      Inr ([1], example_fixed\<lparr>buffer := Some [[0], [1]]\<rparr>, [])"
    by (simp add: rna_update_sol_def example_fixed_def)
  show ?thesis
    by (simp add: 1 2 example_fixed_call_3)
qed

section \<open>regularized\_nonlinear: the force-decrease fallback and the line search\<close>

text \<open>
  Claim C1. With \<open>forcedecrease\<close>, an extrapolating call on which every candidate of the
  grid is worse than the most recent objective entry should return the solver's solution
  unchanged. It does not when \<open>dolinesearch\<close> is set too: the line search of lines 420 to
  443 runs on the fallback as on any proposal. For \<open>k = 2\<close>, the buffered points 0 and 1,
  the solver's solution 2 and the objective \<open>(x - 7/5)\<^sup>2\<close> with its history, the only
  candidate has the value 81/100, worse than the recent 9/25, the proposal is the solver's
  solution 2, and the call returns 20/19.
\<close>

theorem rna_fallback_refined_by_line_search:
  "grid_search (small_lib armijo_two_trials) [[1 / 2, 1 / 2], [1 / 2, 1 / 2]] 2 [[0], [1]]
     (Some [shifted_square]) 1 [1] = Inr [81 / 100]
   \<and> bad_extrapolation (example_fixed\<lparr>buffer := Some [[0], [1]]\<rparr>) [81 / 100]
     [[49 / 25], [4 / 25], [9 / 25]] = Inr True
   \<and> rna_proposal (small_lib armijo_two_trials) (example_fixed\<lparr>buffer := Some [[0], [1]]\<rparr>) [[0], [1], [2]] [2]
       [[49 / 25], [4 / 25], [9 / 25]] = Inr ([2], [1])
   \<and> rna_update_sol (small_lib armijo_two_trials) (example_fixed\<lparr>buffer := Some [[0], [1]]\<rparr>)
       \<lparr>solver.sol = [2], step = 1\<rparr> [[49 / 25], [4 / 25], [9 / 25]] 3 =
     Inr ([20 / 19], example_fixed, [])"
proof -
  have "grid_search (small_lib armijo_two_trials) [[1 / 2, 1 / 2], [1 / 2, 1 / 2]] 2 [[0], [1]]
     (Some [shifted_square]) 1 [1] = Inr [81 / 100]"
    by (simp add: example_fixed_coefficients example_fixed_extrapolation objective_value_def
        shifted_square_def sumsq_def power2_eq_square)
  moreover have "bad_extrapolation (example_fixed\<lparr>buffer := Some [[0], [1]]\<rparr>) [81 / 100]
     [[49 / 25], [4 / 25], [9 / 25]] = Inr True"
    by (simp add: bad_extrapolation_def example_fixed_def py_min_def neg_index_def)
  ultimately show ?thesis
    using example_fixed_proposal example_fixed_call_3 by (simp add: numeral_3_eq_3)
qed

section \<open>regularized\_nonlinear: the buffer cycle\<close>

text \<open>
  Claim C2. Take a run of calls of \<open>_update_sol\<close> with the iteration indices 1, 2, 3, ...
  on a scheme whose buffer is empty at the start, for any \<open>k\<close>. The call with index
  \<open>j + 1\<close> finds in the buffer the \<open>j mod (k + 1)\<close> points gathered since the last reset.
  It extrapolates (it is the extrapolating branch) exactly when its index is a multiple of
  \<open>k + 1\<close>, and then leaves the buffer empty; otherwise it returns the solver's solution
  unchanged and leaves the buffer with that one point appended. So after it the length of
  the buffer is \<open>(j + 1) mod (k + 1)\<close>.
\<close>

theorem rna_buffer_cycle:
  assumes "buffer self0 = Some []"
    and "rna_run lib self0 1 calls = Inr tr"
    and "j < length calls"
    and "prev = (if j = 0 then self0 else snd (tr ! (j - 1)))"
    and "slv = fst (calls ! j)" and "objective = snd (calls ! j)"
  shows "(\<exists>ws. rna_update_sol lib prev slv objective (Suc j) =
                 Inr (fst (tr ! j), snd (tr ! j), ws))
     \<and> (\<exists>b. buffer prev = Some b \<and> length b = j mod (k self0 + 1)
           \<and> (if Suc j mod (k self0 + 1) = 0
              then rna_update_sol lib prev slv objective (Suc j) =
                     rna_extrapolate lib prev slv objective
                   \<and> buffer (snd (tr ! j)) = Some []
              else fst (tr ! j) = solver.sol slv
                   \<and> buffer (snd (tr ! j)) = Some (b @ [solver.sol slv])))
     \<and> (\<exists>b. buffer (snd (tr ! j)) = Some b \<and> length b = Suc j mod (k self0 + 1))"
proof -
  have run: "rna_run lib self0 (Suc 0) calls = Inr tr"
    using assms(2) by simp
  from rna_run_nth [OF run assms(3)] assms(4-6) obtain ws where
    call: "rna_update_sol lib prev slv objective (Suc j) = Inr (fst (tr ! j), snd (tr ! j), ws)"
    by auto
  from rna_run_prev [OF run assms(3) assms(1) assms(4)] obtain b where
    kk: "k prev = k self0" and b: "buffer prev = Some b" "length b = j mod (k self0 + 1)"
    by blast
  from rna_update_sol_state [OF call] b kk have
    after: "buffer (snd (tr ! j)) =
       Some (if Suc j mod (k self0 + 1) = 0 then [] else b @ [solver.sol slv])"
    by simp
  have ret: "Suc j mod (k self0 + 1) \<noteq> 0 \<Longrightarrow> fst (tr ! j) = solver.sol slv"
    using call rna_update_sol_gather [of "Suc j" prev b lib slv objective] b kk by simp
  have ex: "Suc j mod (k self0 + 1) = 0 \<Longrightarrow>
      rna_update_sol lib prev slv objective (Suc j) = rna_extrapolate lib prev slv objective"
    using rna_update_sol_extrapolate [of "Suc j" prev lib slv objective] kk by simp
  have len: "length (if Suc j mod (k self0 + 1) = 0 then [] else b @ [solver.sol slv]) =
      Suc j mod (k self0 + 1)"
    using b(2) by (simp add: mod_Suc)
  show ?thesis
    using call b after ret ex len by auto
qed

theorem rna_buffer_cycle_witness:
  "rna_run (small_lib armijo_two_trials) example_scheme 1
     [(\<lparr>solver.sol = [2], step = 1\<rparr>, [[8]]), (\<lparr>solver.sol = [1], step = 1\<rparr>, [[8], [2]])] =
   Inr [([2], example_scheme\<lparr>buffer := Some [[2]]\<rparr>),
        ([1], example_scheme\<lparr>lambda_grid := Some [], buffer := Some []\<rparr>)]
   \<and> buffer (example_scheme\<lparr>buffer := Some [[2]]\<rparr>) = Some ([] @ [[2]])
   \<and> (\<exists>b. buffer (example_scheme\<lparr>buffer := Some [[2]]\<rparr>) = Some b \<and> length b = 1)
   \<and> (\<exists>b. buffer (example_scheme\<lparr>lambda_grid := Some [], buffer := Some []\<rparr>) = Some b
          \<and> length b = 0)"
proof -
  let ?calls = "[(\<lparr>solver.sol = [2], step = 1\<rparr>, [[8]]),
                 (\<lparr>solver.sol = [1], step = 1\<rparr>, [[8::real], [2]])]"
  let ?tr = "[([2], example_scheme\<lparr>buffer := Some [[2]]\<rparr>),
        ([1], example_scheme\<lparr>lambda_grid := Some [], buffer := Some []\<rparr>)]"
  have b0: "buffer example_scheme = Some []"
    by (simp add: example_scheme_def)
  have run: "rna_run (small_lib armijo_two_trials) example_scheme 1 ?calls = Inr ?tr"
    using example_run by simp
  have kk: "k example_scheme = 1"
    by (simp add: example_scheme_def)
  from rna_buffer_cycle [OF b0 run, of 0 example_scheme "fst (?calls ! 0)" "snd (?calls ! 0)"]
    rna_buffer_cycle [OF b0 run, of 1 "snd (?tr ! 0)" "fst (?calls ! 1)" "snd (?calls ! 1)"]
    run kk
  show ?thesis
    by simp
qed

section \<open>regularized\_nonlinear: the regularization grid\<close>


lemma rna_proposal_result:
  assumes "rna_proposal lib self buf cur objective = Inr (x, grid)"
  shows "\<exists>UU fvals bad.
           gram buf = Inr UU \<and> rna_grid lib self UU = Inr grid
           \<and> grid_search lib UU (k self) (butlast buf) (functions_list self) (length cur) grid
               = Inr fvals
           \<and> bad_extrapolation self fvals objective = Inr bad
           \<and> (if bad then x = cur
               else \<exists>m c. py_min fvals = Inr m
                      \<and> coefficients lib UU (k self) (grid ! index_of m fvals) = Inr c
                      \<and> extrapolation (butlast buf) c (length cur) = Inr x)"
proof -
  from assms obtain UU grid' fvals bad where
    g: "gram buf = Inr UU" and g': "rna_grid lib self UU = Inr grid'"
    and s: "grid_search lib UU (k self) (butlast buf) (functions_list self) (length cur) grid'
               = Inr fvals"
    and b: "bad_extrapolation self fvals objective = Inr bad"
    and r: "(if bad then Inr (cur, grid')
     else
       ebind (py_min fvals) (\<lambda>m.
       ebind (coefficients lib UU (k self) (grid' ! index_of m fvals)) (\<lambda>c.
       ebind (extrapolation (butlast buf) c (length cur)) (\<lambda>x.
       Inr (x, grid'))))) = Inr (x, grid)"
    unfolding rna_proposal_def ebind_eq_Inr by blast
  show ?thesis
  proof (cases bad)
    case True
    with r have "x = cur" "grid' = grid" by simp_all
    with g g' s b True show ?thesis by auto
  next
    case False
    with r obtain m c where "py_min fvals = Inr m"
      "coefficients lib UU (k self) (grid' ! index_of m fvals) = Inr c"
      "extrapolation (butlast buf) c (length cur) = Inr x" "grid' = grid"
      by (auto simp add: ebind_eq_Inr)
    with g g' s b False show ?thesis by auto
  qed
qed

lemma rna_grid_result:
  assumes "rna_grid lib self UU = Inr grid"
  shows "\<exists>g. lambda_grid self = Some g
           \<and> (if adaptive self \<and> length g \<le> 1
               then \<exists>ev. eigvals lib UU = Inr ev
                      \<and> grid = 0 # map2 log_mean (butlast (sort (map cmod ev)))
                                     (tl (sort (map cmod ev)))
               else grid = g)"
  using assms
  by (auto simp add: rna_grid_def adaptive_grid_def Let_def ebind_eq_Inr split: option.splits if_splits)

lemma rna_run_grid_first_cycle:
  assumes run: "rna_run lib self0 (Suc 0) calls = Inr tr"
  shows "j < length calls \<Longrightarrow> j < k self0 \<Longrightarrow> lambda_grid (snd (tr ! j)) = lambda_grid self0"
proof (induction j)
  case 0
  then have "Suc 0 mod (k self0 + 1) \<noteq> 0" by simp
  with rna_run_grid_step [OF run 0(1)] show ?case by simp
next
  case (Suc j)
  then have IH: "lambda_grid (snd (tr ! j)) = lambda_grid self0" by simp
  from Suc.prems have "Suc (Suc j) mod (k self0 + 1) \<noteq> 0" by simp
  with rna_run_grid_step [OF run Suc.prems(1)] IH show ?case by simp
qed


lemma rna_run_prev_grid:
  assumes run: "rna_run lib self0 (Suc 0) calls = Inr tr"
    and j: "j < length calls"
    and prev: "prev = (if j = 0 then self0 else snd (tr ! (j - 1)))"
  shows "k prev = k self0 \<and> adaptive prev = adaptive self0
         \<and> (j \<le> k self0 \<longrightarrow> lambda_grid prev = lambda_grid self0)
         \<and> (adaptive self0 \<longrightarrow> k self0 < j \<longrightarrow> lambda_grid prev = Some [])
         \<and> (\<not> adaptive self0 \<longrightarrow> lambda_grid prev = lambda_grid self0)"
proof (cases j)
  case 0
  with prev show ?thesis by simp
next
  case (Suc i)
  with j have i: "i < length calls" by simp
  have p: "prev = snd (tr ! i)"
    using prev Suc by simp
  have 1: "k prev = k self0 \<and> adaptive prev = adaptive self0"
    using rna_run_fields [OF run i] p by simp
  have 2: "j \<le> k self0 \<longrightarrow> lambda_grid prev = lambda_grid self0"
    using rna_run_grid_first_cycle [OF run i] p Suc by simp
  have 3: "adaptive self0 \<longrightarrow> k self0 < j \<longrightarrow> lambda_grid prev = Some []"
    using rna_run_grid_cleared [OF run _ i] p Suc by simp
  have 4: "\<not> adaptive self0 \<longrightarrow> lambda_grid prev = lambda_grid self0"
    using rna_run_grid_fixed [OF run _ i] p by simp
  from 1 2 3 4 show ?thesis by blast
qed


lemma log_mean_sqrt: "0 < a \<Longrightarrow> 0 < c \<Longrightarrow> log_mean a c = sqrt (a * c)"
proof -
  assume a: "0 < a" and c: "0 < c"
  then have "ln a + ln c = ln (a * c)"
    by (simp add: ln_mult)
  then have "log_mean a c = exp (ln (a * c) / 2)"
    using a c by (simp add: log_mean_def)
  also have "\<dots> = (a * c) powr (1 / 2)"
    using a c by (simp add: powr_def)
  also have "\<dots> = sqrt (a * c)"
    using a c by (simp add: powr_half_sqrt)
  finally show ?thesis .
qed

lemma example_adaptive_gram:
  "gram [[0, 0], [2, 0], [3, 2]] = Inr [[4 / 7, 2 / 7], [2 / 7, 5 / 7]]"
proof -
  have "sqrt 49 = 7"
    by (rule real_sqrt_unique) simp_all
  then show ?thesis
    by (simp add: gram_def vsub_def dot_def sumsq_def)
qed

lemma example_adaptive_grid:
  "adaptive_grid (small_lib ls) [[4 / 7, 2 / 7], [2 / 7, 5 / 7]] = Inr [0, 4 / 7]"
proof -
  define s :: real where "s = sqrt 17 / 7"
  have s0: "0 \<le> s"
    by (simp add: s_def)
  have s2: "s * s = 17 / 49"
    by (simp add: s_def)
  have "s < 9 / 7"
  proof (rule ccontr)
    assume "\<not> s < 9 / 7"
    then have "9 / 7 \<le> s" by simp
    then have "(9 / 7) * (9 / 7) \<le> s * s"
      by (intro mult_mono) simp_all
    with s2 show False by simp
  qed
  then have p1: "0 < (9 / 7 - s) / 2" and p2: "0 < (9 / 7 + s) / 2"
    and le: "(9 / 7 - s) / 2 \<le> (9 / 7 + s) / 2"
    using s0 by simp_all
  have ev: "eigvals (small_lib ls) [[4 / 7, 2 / 7], [2 / 7, 5 / 7]] =
      Inr [complex_of_real ((9 / 7 - s) / 2), complex_of_real ((9 / 7 + s) / 2)]"
  proof -
    have "(4 / 7 + 5 / 7)\<^sup>2 - 4 * (4 / 7 * (5 / 7) - 2 / 7 * (2 / 7)) = (17 / 49 :: real)"
      by (simp add: power2_eq_square)
    moreover have "sqrt (17 / 49) = s"
      by (rule real_sqrt_unique) (simp_all add: s0 s2 power2_eq_square)
    ultimately show ?thesis
      by (simp add: small_lib_def eigvals_small_def numeral_2_eq_2 Let_def)
  qed
  have srt: "sort [(9 / 7 - s) / 2, (9 / 7 + s) / 2] = [(9 / 7 - s) / 2, (9 / 7 + s) / 2]"
    using le by simp
  have "((9 / 7 - s) / 2) * ((9 / 7 + s) / 2) = 16 / 49"
    using s2 by (simp add: algebra_simps)
  then have "log_mean ((9 / 7 - s) / 2) ((9 / 7 + s) / 2) = sqrt (16 / 49)"
    using log_mean_sqrt [OF p1 p2] by simp
  also have "sqrt (16 / 49) = 4 / 7"
    by (rule real_sqrt_unique) (simp_all add: power2_eq_square)
  finally have lm: "log_mean ((9 / 7 - s) / 2) ((9 / 7 + s) / 2) = 4 / 7" .
  have cm: "map cmod [complex_of_real ((9 / 7 - s) / 2), complex_of_real ((9 / 7 + s) / 2)] =
      [(9 / 7 - s) / 2, (9 / 7 + s) / 2]"
    using p1 p2 by (simp only: list.map norm_of_real) simp
  show ?thesis
    unfolding adaptive_grid_def ev ebind_Inr Let_def cm srt
    by (simp add: lm)
qed

lemma example_adaptive_coefficients:
  "coefficients (small_lib ls) [[4 / 7, 2 / 7], [2 / 7, 5 / 7]] 2 1 = Inr [10 / 19, 9 / 19]"
  "coefficients (small_lib ls) [[4 / 7, 2 / 7], [2 / 7, 5 / 7]] 2 2 = Inr [17 / 33, 16 / 33]"
  "coefficients (small_lib ls) [[4 / 7, 2 / 7], [2 / 7, 5 / 7]] 2 0 = Inr [3 / 5, 2 / 5]"
  "coefficients (small_lib ls) [[4 / 7, 2 / 7], [2 / 7, 5 / 7]] 2 (4 / 7) = Inr [7 / 13, 6 / 13]"
  by (simp_all add: coefficients_def regularized_def small_lib_def solve_small_def assign_def
      numeral_2_eq_2 Let_def)

lemma example_adaptive_extrapolation:
  "extrapolation [[0, 0], [2, 0]] [10 / 19, 9 / 19] (Suc (Suc 0)) = Inr [18 / 19, 0]"
  "extrapolation [[0, 0], [2, 0]] [17 / 33, 16 / 33] (Suc (Suc 0)) = Inr [32 / 33, 0]"
  "extrapolation [[0, 0], [2, 0]] [3 / 5, 2 / 5] (Suc (Suc 0)) = Inr [4 / 5, 0]"
  "extrapolation [[0, 0], [2, 0]] [7 / 13, 6 / 13] (Suc (Suc 0)) = Inr [12 / 13, 0]"
  by (simp_all add: extrapolation_def)

lemma example_adaptive_search:
  "grid_search (small_lib ls) [[4 / 7, 2 / 7], [2 / 7, 5 / 7]] 2 [[0, 0], [2, 0]]
     (Some [square_norm]) (Suc (Suc 0)) [1, 2] = Inr [324 / 361, 1024 / 1089]"
  "grid_search (small_lib ls) [[4 / 7, 2 / 7], [2 / 7, 5 / 7]] 2 [[0, 0], [2, 0]]
     (Some [square_norm]) (Suc (Suc 0)) [0, 4 / 7] = Inr [16 / 25, 144 / 169]"
  by (simp_all add: example_adaptive_coefficients example_adaptive_extrapolation
      objective_value_def square_norm_def sumsq_def power2_eq_square)

lemma example_adaptive_call_3:
  "rna_update_sol (small_lib ls) (example_adaptive\<lparr>buffer := Some [[0, 0], [2, 0]]\<rparr>)
     \<lparr>solver.sol = [3, 2], step = 1\<rparr> obj (Suc (Suc (Suc 0))) =
   Inr ([18 / 19, 0], example_adaptive\<lparr>lambda_grid := Some [], buffer := Some []\<rparr>, [])"
proof -
  have "rna_proposal (small_lib ls) (example_adaptive\<lparr>buffer := Some [[0, 0], [2, 0]]\<rparr>)
      [[0, 0], [2, 0], [3, 2]] [3, 2] obj = Inr ([18 / 19, 0], [1, 2])"
    by (simp add: rna_proposal_def example_adaptive_gram rna_grid_def example_adaptive_def
        example_adaptive_coefficients example_adaptive_extrapolation objective_value_def
        square_norm_def sumsq_def power2_eq_square bad_extrapolation_def py_min_def)
  then have "rna_extrapolate (small_lib ls) (example_adaptive\<lparr>buffer := Some [[0, 0], [2, 0]]\<rparr>)
     \<lparr>solver.sol = [3, 2], step = 1\<rparr> obj =
     Inr ([18 / 19, 0], example_adaptive\<lparr>lambda_grid := Some [], buffer := Some []\<rparr>, [])"
    by (simp add: rna_extrapolate_def) (simp add: example_adaptive_def)
  then show ?thesis
    by (simp add: rna_update_sol_def example_adaptive_def)
qed

lemma example_adaptive_call_6:
  "rna_update_sol (small_lib ls)
     (example_adaptive\<lparr>lambda_grid := Some [], buffer := Some [[0, 0], [2, 0]]\<rparr>)
     \<lparr>solver.sol = [3, 2], step = 1\<rparr> obj (Suc (Suc (Suc (Suc (Suc (Suc 0)))))) =
   Inr ([4 / 5, 0], example_adaptive\<lparr>lambda_grid := Some [], buffer := Some []\<rparr>, [])"
proof -
  have "rna_proposal (small_lib ls)
      (example_adaptive\<lparr>lambda_grid := Some [], buffer := Some [[0, 0], [2, 0]]\<rparr>)
      [[0, 0], [2, 0], [3, 2]] [3, 2] obj = Inr ([4 / 5, 0], [0, 4 / 7])"
    by (simp add: rna_proposal_def example_adaptive_gram rna_grid_def example_adaptive_def
        example_adaptive_grid
        example_adaptive_coefficients example_adaptive_extrapolation objective_value_def
        square_norm_def sumsq_def power2_eq_square bad_extrapolation_def py_min_def)
  then have "rna_extrapolate (small_lib ls)
     (example_adaptive\<lparr>lambda_grid := Some [], buffer := Some [[0, 0], [2, 0]]\<rparr>)
     \<lparr>solver.sol = [3, 2], step = 1\<rparr> obj =
     Inr ([4 / 5, 0], example_adaptive\<lparr>lambda_grid := Some [], buffer := Some []\<rparr>, [])"
    by (simp add: rna_extrapolate_def) (simp add: example_adaptive_def)
  then show ?thesis
    by (simp add: rna_update_sol_def example_adaptive_def)
qed

lemma example_adaptive_gather:
  "rna_update_sol lib example_adaptive \<lparr>solver.sol = [0, 0], step = 1\<rparr> obj (Suc 0) =
     Inr ([0, 0], example_adaptive\<lparr>buffer := Some [[0, 0]]\<rparr>, [])"
  "rna_update_sol lib (example_adaptive\<lparr>buffer := Some [[0, 0]]\<rparr>)
     \<lparr>solver.sol = [2, 0], step = 1\<rparr> obj (Suc (Suc 0)) =
     Inr ([2, 0], example_adaptive\<lparr>buffer := Some [[0, 0], [2, 0]]\<rparr>, [])"
  "rna_update_sol lib (example_adaptive\<lparr>lambda_grid := Some [], buffer := Some []\<rparr>)
     \<lparr>solver.sol = [0, 0], step = 1\<rparr> obj (Suc (Suc (Suc (Suc 0)))) =
     Inr ([0, 0], example_adaptive\<lparr>lambda_grid := Some [], buffer := Some [[0, 0]]\<rparr>, [])"
  "rna_update_sol lib (example_adaptive\<lparr>lambda_grid := Some [], buffer := Some [[0, 0]]\<rparr>)
     \<lparr>solver.sol = [2, 0], step = 1\<rparr> obj (Suc (Suc (Suc (Suc (Suc 0))))) =
     Inr ([2, 0],
          example_adaptive\<lparr>lambda_grid := Some [], buffer := Some [[0, 0], [2, 0]]\<rparr>, [])"
  by (simp_all add: rna_update_sol_def example_adaptive_def)

lemma example_adaptive_run:
  "rna_run (small_lib ls) example_adaptive 1 example_adaptive_calls =
   Inr [([0, 0], example_adaptive\<lparr>buffer := Some [[0, 0]]\<rparr>),
        ([2, 0], example_adaptive\<lparr>buffer := Some [[0, 0], [2, 0]]\<rparr>),
        ([18 / 19, 0], example_adaptive\<lparr>lambda_grid := Some [], buffer := Some []\<rparr>),
        ([0, 0], example_adaptive\<lparr>lambda_grid := Some [], buffer := Some [[0, 0]]\<rparr>),
        ([2, 0], example_adaptive\<lparr>lambda_grid := Some [], buffer := Some [[0, 0], [2, 0]]\<rparr>),
        ([4 / 5, 0], example_adaptive\<lparr>lambda_grid := Some [], buffer := Some []\<rparr>)]"
  by (simp add: example_adaptive_calls_def example_adaptive_gather example_adaptive_call_3
      example_adaptive_call_6)

text \<open>
  Claim C3. In a run of calls with the indices 1, 2, 3, ..., every call whose index is a
  multiple of \<open>k + 1\<close> extrapolates from the buffer left by the call before it, with its own
  iterate appended: it takes the normalized Gram matrix of these points and searches a grid
  over it. The grid searched is the stored one when the scheme is not adaptive or the stored
  grid has several values, and otherwise it is rebuilt at that moment from the eigenvalues
  of this Gram matrix: 0 followed by \<open>exp ((ln a + ln b) / 2)\<close> for the adjacent pairs \<open>a, b\<close>
  of the sorted absolute eigenvalues. The point returned is the extrapolation at the best
  grid value (the iterate itself when the extrapolation is refused), after the line search
  if there is one. Up to the first extrapolating call the stored grid is the one the
  user gave, so a grid of several values serves the first cycle; an adaptive scheme
  clears the grid at every extrapolating call and the grid stays empty from then on, so
  every later extrapolating call rebuilds it. A scheme that is not adaptive keeps its grid
  through the whole run.
\<close>

theorem rna_grid_lifecycle:
  assumes "rna_run lib self0 1 calls = Inr tr" and "j < length calls"
    and "prev = (if j = 0 then self0 else snd (tr ! (j - 1)))"
    and "slv = fst (calls ! j)" and "objective = snd (calls ! j)"
  shows "(adaptive self0 \<longrightarrow> Suc j mod (k self0 + 1) = 0 \<longrightarrow>
            lambda_grid (snd (tr ! j)) = Some [])
     \<and> (adaptive self0 \<longrightarrow> k self0 \<le> j \<longrightarrow> lambda_grid (snd (tr ! j)) = Some [])
     \<and> (\<not> adaptive self0 \<longrightarrow> lambda_grid (snd (tr ! j)) = lambda_grid self0)
     \<and> (j \<le> k self0 \<longrightarrow> lambda_grid prev = lambda_grid self0)
     \<and> (adaptive self0 \<longrightarrow> k self0 < j \<longrightarrow> lambda_grid prev = Some [])
     \<and> (Suc j mod (k self0 + 1) = 0 \<longrightarrow>
          (\<exists>b g UU grid fvals bad extrap ws.
             buffer prev = Some b \<and> lambda_grid prev = Some g
             \<and> gram (b @ [solver.sol slv]) = Inr UU
             \<and> (if adaptive self0 \<and> length g \<le> 1
                 then \<exists>ev. eigvals lib UU = Inr ev
                        \<and> grid = 0 # map2 log_mean (butlast (sort (map cmod ev)))
                                       (tl (sort (map cmod ev)))
                 else grid = g)
             \<and> grid_search lib UU (k self0) b (functions_list prev)
                  (length (solver.sol slv)) grid = Inr fvals
             \<and> bad_extrapolation prev fvals objective = Inr bad
             \<and> (if bad then extrap = solver.sol slv
                 else \<exists>m c. py_min fvals = Inr m
                        \<and> coefficients lib UU (k self0) (grid ! index_of m fvals) = Inr c
                        \<and> extrapolation b c (length (solver.sol slv)) = Inr extrap)
             \<and> (if dolinesearch prev
                 then rna_line_search lib prev (b @ [solver.sol slv]) objective extrap
                 else Inr (extrap, [])) = Inr (fst (tr ! j), ws)))
     \<and> (0 < a \<longrightarrow> 0 < a' \<longrightarrow> log_mean a a' = exp ((ln a + ln a') / 2))"
proof -
  have run: "rna_run lib self0 (Suc 0) calls = Inr tr"
    using assms(1) by simp
  note pg = rna_run_prev_grid [OF run assms(2,3)]
  have 1: "adaptive self0 \<longrightarrow> Suc j mod (k self0 + 1) = 0 \<longrightarrow>
            lambda_grid (snd (tr ! j)) = Some []"
    using rna_run_grid_step [OF run assms(2)] by simp
  have 2: "adaptive self0 \<longrightarrow> k self0 \<le> j \<longrightarrow> lambda_grid (snd (tr ! j)) = Some []"
    using rna_run_grid_cleared [OF run _ assms(2)] by simp
  have 3: "\<not> adaptive self0 \<longrightarrow> lambda_grid (snd (tr ! j)) = lambda_grid self0"
    using rna_run_grid_fixed [OF run _ assms(2)] by simp
  have 6: "\<exists>b g UU grid fvals bad extrap ws.
             buffer prev = Some b \<and> lambda_grid prev = Some g
             \<and> gram (b @ [solver.sol slv]) = Inr UU
             \<and> (if adaptive self0 \<and> length g \<le> 1
                 then \<exists>ev. eigvals lib UU = Inr ev
                        \<and> grid = 0 # map2 log_mean (butlast (sort (map cmod ev)))
                                       (tl (sort (map cmod ev)))
                 else grid = g)
             \<and> grid_search lib UU (k self0) b (functions_list prev)
                  (length (solver.sol slv)) grid = Inr fvals
             \<and> bad_extrapolation prev fvals objective = Inr bad
             \<and> (if bad then extrap = solver.sol slv
                 else \<exists>m c. py_min fvals = Inr m
                        \<and> coefficients lib UU (k self0) (grid ! index_of m fvals) = Inr c
                        \<and> extrapolation b c (length (solver.sol slv)) = Inr extrap)
             \<and> (if dolinesearch prev
                 then rna_line_search lib prev (b @ [solver.sol slv]) objective extrap
                 else Inr (extrap, [])) = Inr (fst (tr ! j), ws)"
    if ex: "Suc j mod (k self0 + 1) = 0"
  proof -
    from rna_run_nth [OF run assms(2)] assms(3-5) obtain ws where
      call: "rna_update_sol lib prev slv objective (Suc j) =
               Inr (fst (tr ! j), snd (tr ! j), ws)"
      by auto
    have "rna_extrapolate lib prev slv objective = Inr (fst (tr ! j), snd (tr ! j), ws)"
      using call ex pg by (simp add: rna_update_sol_def)
    from rna_extrapolate_result [OF this] obtain b extrap grid where
      b: "buffer prev = Some b"
      and p: "rna_proposal lib prev (b @ [solver.sol slv]) (solver.sol slv) objective =
                Inr (extrap, grid)"
      and ls: "(if dolinesearch prev
                then rna_line_search lib prev (b @ [solver.sol slv]) objective extrap
                else Inr (extrap, [])) = Inr (fst (tr ! j), ws)"
      by blast
    from rna_proposal_result [OF p] obtain UU fvals bad where
      g: "gram (b @ [solver.sol slv]) = Inr UU"
      and rg: "rna_grid lib prev UU = Inr grid"
      and gs: "grid_search lib UU (k prev) (butlast (b @ [solver.sol slv]))
                 (functions_list prev) (length (solver.sol slv)) grid = Inr fvals"
      and bad: "bad_extrapolation prev fvals objective = Inr bad"
      and x: "if bad then extrap = solver.sol slv
               else \<exists>m c. py_min fvals = Inr m
                      \<and> coefficients lib UU (k prev) (grid ! index_of m fvals) = Inr c
                      \<and> extrapolation (butlast (b @ [solver.sol slv])) c
                           (length (solver.sol slv)) = Inr extrap"
      by blast
    from rna_grid_result [OF rg] obtain g0 where
      g0: "lambda_grid prev = Some g0"
      and gr: "if adaptive prev \<and> length g0 \<le> 1
               then \<exists>ev. eigvals lib UU = Inr ev
                      \<and> grid = 0 # map2 log_mean (butlast (sort (map cmod ev)))
                                     (tl (sort (map cmod ev)))
               else grid = g0"
      by blast
    have kp: "k prev = k self0" and ap: "adaptive prev = adaptive self0"
      using pg by simp_all
    from b g0 g gr gs bad x ls show ?thesis
      unfolding kp ap butlast_snoc by blast
  qed
  have 7: "0 < a \<longrightarrow> 0 < a' \<longrightarrow> log_mean a a' = exp ((ln a + ln a') / 2)"
    by (simp add: log_mean_positive)
  from 1 2 3 pg 6 7 show ?thesis
    by blast
qed


theorem rna_grid_lifecycle_witness:
  "lambda_grid (example_adaptive\<lparr>lambda_grid := Some [], buffer := Some []\<rparr>) = Some []
   \<and> gram ([[0, 0], [2, 0]] @ [[3, 2]]) = Inr [[4 / 7, 2 / 7], [2 / 7, 5 / 7]]
   \<and> grid_search (small_lib no_step) [[4 / 7, 2 / 7], [2 / 7, 5 / 7]] 2 [[0, 0], [2, 0]]
         (Some [square_norm]) 2 [1, 2] = Inr [324 / 361, 1024 / 1089]
   \<and> (\<exists>ev. eigvals (small_lib no_step) [[4 / 7, 2 / 7], [2 / 7, 5 / 7]] = Inr ev
         \<and> 0 # map2 log_mean (butlast (sort (map cmod ev))) (tl (sort (map cmod ev)))
             = [0, 4 / 7])
   \<and> grid_search (small_lib no_step) [[4 / 7, 2 / 7], [2 / 7, 5 / 7]] 2 [[0, 0], [2, 0]]
         (Some [square_norm]) 2 [0, 4 / 7] = Inr [16 / 25, 144 / 169]
   \<and> lambda_grid example_fixed = Some [1]
   \<and> log_mean 1 4 = exp ((ln 1 + ln 4) / 2)"
proof -
  let ?lib = "small_lib no_step"
  let ?st2 = "example_adaptive\<lparr>buffer := Some [[0, 0], [2, 0]]\<rparr>"
  let ?st3 = "example_adaptive\<lparr>lambda_grid := Some [], buffer := Some []\<rparr>"
  let ?st5 = "example_adaptive\<lparr>lambda_grid := Some [], buffer := Some [[0, 0], [2, 0]]\<rparr>"
  let ?tr = "[([0, 0], example_adaptive\<lparr>buffer := Some [[0, 0]]\<rparr>),
        ([2, 0], ?st2),
        ([18 / 19, 0], ?st3),
        ([0, 0], example_adaptive\<lparr>lambda_grid := Some [], buffer := Some [[0, 0]]\<rparr>),
        ([2, 0], ?st5),
        ([4 / 5, 0], ?st3)]"
  have run: "rna_run ?lib example_adaptive 1 example_adaptive_calls = Inr ?tr"
    by (rule example_adaptive_run)
  have len: "2 < length example_adaptive_calls" "5 < length example_adaptive_calls"
    by (simp_all add: example_adaptive_calls_def)
  have p2: "?st2 = (if (2::nat) = 0 then example_adaptive else snd (?tr ! (2 - 1)))"
    and p5: "?st5 = (if (5::nat) = 0 then example_adaptive else snd (?tr ! (5 - 1)))"
    by (simp_all add: numeral_2_eq_2 eval_nat_numeral)
  have s2: "\<lparr>solver.sol = [3, 2], step = 1\<rparr> = fst (example_adaptive_calls ! 2)"
    and o2: "[[0], [4], [13]] = snd (example_adaptive_calls ! 2)"
    and s5: "\<lparr>solver.sol = [3, 2], step = 1\<rparr> = fst (example_adaptive_calls ! 5)"
    and o5: "[[0], [4], [13], [0], [4], [13]] = snd (example_adaptive_calls ! 5)"
    by (simp_all add: example_adaptive_calls_def eval_nat_numeral)
  note first = rna_grid_lifecycle [OF run len(1) p2 s2 o2, of 1 4]
  note second = rna_grid_lifecycle [OF run len(2) p5 s5 o5, of 1 4]
  note first_cleared = first [THEN conjunct2, THEN conjunct1]
  note first_search = first [THEN conjunct2, THEN conjunct2, THEN conjunct2, THEN conjunct2, THEN conjunct2, THEN conjunct1]
  note first_mean = first [THEN conjunct2, THEN conjunct2, THEN conjunct2, THEN conjunct2, THEN conjunct2, THEN conjunct2]
  note second_search = second [THEN conjunct2, THEN conjunct2, THEN conjunct2, THEN conjunct2, THEN conjunct2, THEN conjunct1]
  have kk: "k example_adaptive = 2" and ad: "adaptive example_adaptive"
    by (simp_all add: example_adaptive_def)
  have a: "lambda_grid ?st3 = Some []"
    using first_cleared kk ad by (simp add: eval_nat_numeral)
  have two: "\<And>UU grid. grid_search ?lib UU 2 [[0, 0], [2, 0]] (Some [square_norm]) 2 grid =
      grid_search ?lib UU 2 [[0, 0], [2, 0]] (Some [square_norm]) (Suc (Suc 0)) grid"
    by (simp only: numeral_2_eq_2)
  have b: "gram ([[0, 0], [2, 0]] @ [[3, 2]]) = Inr [[4 / 7, 2 / 7], [2 / 7, 5 / 7]]
         \<and> grid_search ?lib [[4 / 7, 2 / 7], [2 / 7, 5 / 7]] 2 [[0, 0], [2, 0]]
              (Some [square_norm]) 2 [1, 2] = Inr [324 / 361, 1024 / 1089]"
  proof -
    have "Suc 2 mod (k example_adaptive + 1) = 0"
      using kk by simp
    with first_search obtain b g UU grid fvals where
      "buffer ?st2 = Some b" "lambda_grid ?st2 = Some g"
      "gram (b @ [solver.sol \<lparr>solver.sol = [3, 2], step = 1\<rparr>]) = Inr UU"
      "if adaptive example_adaptive \<and> length g \<le> 1
                 then \<exists>ev. eigvals ?lib UU = Inr ev
                        \<and> grid = 0 # map2 log_mean (butlast (sort (map cmod ev)))
                                       (tl (sort (map cmod ev)))
                 else grid = g"
      "grid_search ?lib UU (k example_adaptive) b (functions_list ?st2)
         (length (solver.sol \<lparr>solver.sol = [3, 2], step = 1\<rparr>)) grid = Inr fvals"
      by blast
    note facts = this
    from facts(1,2) have bg: "b = [[0, 0], [2, 0]]" "g = [1, 2]"
      by (simp_all add: example_adaptive_def)
    have l: "length (solver.sol \<lparr>solver.sol = [3, 2::real], step = 1\<rparr>) = 2"
      by simp
    have 1: "gram ([[0, 0], [2, 0]] @ [[3, 2]]) = Inr UU"
      using facts(3) bg by simp
    have 2: "grid = [1, 2]"
      using facts(4) bg by simp
    have 3: "grid_search ?lib UU 2 [[0, 0], [2, 0]] (Some [square_norm]) 2 grid = Inr fvals"
      using facts(5) unfolding l bg kk by (simp add: example_adaptive_def del: grid_search.simps)
    from 1 have U: "UU = [[4 / 7, 2 / 7], [2 / 7, 5 / 7]]"
      using example_adaptive_gram by simp
    have "Inr fvals = grid_search ?lib [[4 / 7, 2 / 7], [2 / 7, 5 / 7]] 2 [[0, 0], [2, 0]]
              (Some [square_norm]) 2 [1, 2]"
      using 3 unfolding U 2 by (rule sym)
    also have "\<dots> = Inr [324 / 361, 1024 / 1089]"
      unfolding two by (rule example_adaptive_search(1))
    finally have v: "grid_search ?lib UU 2 [[0, 0], [2, 0]] (Some [square_norm]) 2 grid
        = Inr [324 / 361, 1024 / 1089]"
      using 3 by (rule subst)
    show ?thesis
      apply (rule conjI)
      apply (rule 1 [unfolded U])
      apply (rule v [unfolded U 2])
      done
  qed
  have c: "(\<exists>ev. eigvals ?lib [[4 / 7, 2 / 7], [2 / 7, 5 / 7]] = Inr ev
            \<and> 0 # map2 log_mean (butlast (sort (map cmod ev))) (tl (sort (map cmod ev)))
                = [0, 4 / 7])
         \<and> grid_search ?lib [[4 / 7, 2 / 7], [2 / 7, 5 / 7]] 2 [[0, 0], [2, 0]]
              (Some [square_norm]) 2 [0, 4 / 7] = Inr [16 / 25, 144 / 169]"
  proof -
    have "Suc 5 mod (k example_adaptive + 1) = 0"
      using kk by simp
    with second_search obtain b g UU grid fvals where
      f: "buffer ?st5 = Some b" "lambda_grid ?st5 = Some g"
      and g: "gram (b @ [solver.sol \<lparr>solver.sol = [3, 2], step = 1\<rparr>]) = Inr UU"
      and r: "if adaptive example_adaptive \<and> length g \<le> 1
                 then \<exists>ev. eigvals ?lib UU = Inr ev
                        \<and> grid = 0 # map2 log_mean (butlast (sort (map cmod ev)))
                                       (tl (sort (map cmod ev)))
                 else grid = g"
      and s: "grid_search ?lib UU (k example_adaptive) b (functions_list ?st5)
         (length (solver.sol \<lparr>solver.sol = [3, 2], step = 1\<rparr>)) grid = Inr fvals"
      by blast
    from f have bg: "b = [[0, 0], [2, 0]]" "g = []"
      by (simp_all add: example_adaptive_def)
    with r ad obtain ev where ev: "eigvals ?lib UU = Inr ev"
      and gr: "grid = 0 # map2 log_mean (butlast (sort (map cmod ev))) (tl (sort (map cmod ev)))"
      by auto
    from g bg have UU: "UU = [[4 / 7, 2 / 7], [2 / 7, 5 / 7]]"
      using example_adaptive_gram by simp
    have "adaptive_grid ?lib UU = Inr grid"
      by (simp add: adaptive_grid_def ev gr Let_def)
    with UU have "grid = [0, 4 / 7]"
      by (simp add: example_adaptive_grid)
    note val = this
    have l: "length (solver.sol \<lparr>solver.sol = [3, 2::real], step = 1\<rparr>) = 2"
      by simp
    have 1: "gram ([[0, 0], [2, 0]] @ [[3, 2]]) = Inr UU"
      using g bg by simp
    have 3: "grid_search ?lib UU 2 [[0, 0], [2, 0]] (Some [square_norm]) 2 grid = Inr fvals"
      using s unfolding l bg kk by (simp add: example_adaptive_def del: grid_search.simps)
    have "Inr fvals = grid_search ?lib [[4 / 7, 2 / 7], [2 / 7, 5 / 7]] 2 [[0, 0], [2, 0]]
              (Some [square_norm]) 2 [0, 4 / 7]"
      using 3 unfolding UU val by (rule sym)
    also have "\<dots> = Inr [16 / 25, 144 / 169]"
      unfolding two by (rule example_adaptive_search(2))
    finally have v: "grid_search ?lib UU 2 [[0, 0], [2, 0]] (Some [square_norm]) 2 grid
        = Inr [16 / 25, 144 / 169]"
      using 3 by (rule subst)
    show ?thesis
      apply (rule conjI)
      apply (rule exI [of _ ev])
      apply (rule conjI)
      apply (rule ev [unfolded UU])
      apply (rule trans [OF gr [symmetric] val])
      apply (rule v [unfolded UU val])
      done
  qed
  have fixed: "rna_run (small_lib armijo_two_trials) example_fixed 1
     [(\<lparr>solver.sol = [0], step = 1\<rparr>, [[49 / 25]]),
      (\<lparr>solver.sol = [1], step = 1\<rparr>, [[49 / 25], [4 / 25]]),
      (\<lparr>solver.sol = [2], step = 1\<rparr>, [[49 / 25], [4 / 25], [9 / 25]])] =
   Inr [([0], example_fixed\<lparr>buffer := Some [[0]]\<rparr>),
        ([1], example_fixed\<lparr>buffer := Some [[0], [1]]\<rparr>),
        ([20 / 19], example_fixed)]"
    using example_fixed_run by simp
  have d: "lambda_grid example_fixed = Some [1]"
    using rna_grid_lifecycle [OF fixed, of 2 "example_fixed\<lparr>buffer := Some [[0], [1]]\<rparr>"
        "\<lparr>solver.sol = [2], step = 1\<rparr>" "[[49 / 25], [4 / 25], [9 / 25]]" 1 4,
        THEN conjunct2, THEN conjunct2, THEN conjunct1]
    by (simp add: example_fixed_def)
  have e: "log_mean 1 4 = exp ((ln 1 + ln 4) / 2)"
    using first_mean by simp
  show ?thesis
    apply (intro conjI)
    apply (rule a, rule b [THEN conjunct1], rule b [THEN conjunct2], rule c [THEN conjunct1],
      rule c [THEN conjunct2], rule d, rule e)
    done
qed

section \<open>regularized\_nonlinear: values of lambda\_ that cannot be converted\<close>

text \<open>
  The constructor does not raise for the string \<open>'abc'\<close>: it prints a message and returns
  a scheme whose grid attribute is not set.
\<close>

theorem rna_init_accepts_unconvertible:
  "rna_init 10 (Iterable [RaisesValueError, RaisesValueError, RaisesValueError] RaisesValueError)
     True True True =
   Inr (\<lparr>accel.sol = None, k = 10, lambda_grid = None, adaptive = True, dolinesearch = True,
         forcedecrease = True, buffer = None, functions_list = None\<rparr>,
        [Must_provide_a_list_of_numbers])"
  by (simp add: rna_init_def lambda_setter_def)

text \<open>
  Claim C4, as amended. When the conversion of \<open>lambda_\<close> fails with a \<open>ValueError\<close>
  (the first element that \<open>float\<close> rejects raises it, or the value cannot be iterated, or
  has an element of a wrong type, and \<open>float\<close> of the value itself raises it), the constructor
  prints a message and returns normally with the grid attribute unset; the first
  extrapolating call of \<open>_update_sol\<close> then raises \<open>AttributeError\<close>. When the conversion
  fails with a \<open>TypeError\<close>, the constructor raises it.
\<close>

theorem rna_init_unconvertible:
  "(convert_all es = Inl ValueError \<longrightarrow>
      rna_init k0 (Iterable es c) a d f =
        Inr (\<lparr>accel.sol = None, k = k0, lambda_grid = None, adaptive = a, dolinesearch = d,
              forcedecrease = f, buffer = None, functions_list = None\<rparr>,
             [Must_provide_a_list_of_numbers]))
   \<and> (convert_all es = Inl TypeError \<longrightarrow>
      rna_init k0 (Iterable es RaisesValueError) a d f =
        Inr (\<lparr>accel.sol = None, k = k0, lambda_grid = None, adaptive = a, dolinesearch = d,
              forcedecrease = f, buffer = None, functions_list = None\<rparr>,
             [Must_provide_a_number]))
   \<and> rna_init k0 (Scalar RaisesValueError) a d f =
        Inr (\<lparr>accel.sol = None, k = k0, lambda_grid = None, adaptive = a, dolinesearch = d,
              forcedecrease = f, buffer = None, functions_list = None\<rparr>,
             [Must_provide_a_number])
   \<and> (convert_all es = Inl TypeError \<longrightarrow>
      rna_init k0 (Iterable es RaisesTypeError) a d f = Inl TypeError)
   \<and> rna_init k0 (Scalar RaisesTypeError) a d f = Inl TypeError
   \<and> (lambda_grid self = None \<longrightarrow> buffer self = Some b \<longrightarrow>
      gram (b @ [solver.sol slv]) = Inr UU \<longrightarrow> niter mod (k self + 1) = 0 \<longrightarrow>
      rna_update_sol lib self slv objective niter = Inl AttributeError)"
  by (simp add: rna_init_def lambda_setter_def rna_update_sol_def rna_extrapolate_unset_grid)

theorem rna_init_unconvertible_witness:
  "rna_init 1 (Iterable [Float 1, RaisesValueError] RaisesTypeError) True True True =
     Inr (\<lparr>accel.sol = None, k = 1, lambda_grid = None, adaptive = True, dolinesearch = True,
           forcedecrease = True, buffer = None, functions_list = None\<rparr>,
          [Must_provide_a_list_of_numbers])
   \<and> rna_init 1 (Iterable [RaisesTypeError] RaisesValueError) True True True =
     Inr (\<lparr>accel.sol = None, k = 1, lambda_grid = None, adaptive = True, dolinesearch = True,
           forcedecrease = True, buffer = None, functions_list = None\<rparr>,
          [Must_provide_a_number])
   \<and> rna_init 1 (Iterable [RaisesTypeError] RaisesTypeError) True True True = Inl TypeError
   \<and> rna_update_sol (small_lib no_step)
       (rna_pre \<lparr>accel.sol = None, k = 1, lambda_grid = None, adaptive = True,
                 dolinesearch = True, forcedecrease = True, buffer = None,
                 functions_list = None\<rparr> [quadratic] [2]\<lparr>buffer := Some [[2]]\<rparr>)
       \<lparr>solver.sol = [1], step = 1\<rparr> [[8], [2]] 2 = Inl AttributeError"
proof -
  let ?self = "rna_pre \<lparr>accel.sol = None, k = 1, lambda_grid = None, adaptive = True,
                 dolinesearch = True, forcedecrease = True, buffer = None,
                 functions_list = None\<rparr> [quadratic] [2]\<lparr>buffer := Some [[2]]\<rparr>"
  have 1: "convert_all [Float 1, RaisesValueError] = Inl ValueError"
    and 2: "convert_all [RaisesTypeError] = Inl TypeError"
    by simp_all
  have 3: "lambda_grid ?self = None" and 4: "buffer ?self = Some [[2]]"
    and 5: "2 mod (k ?self + 1) = 0"
    by (simp_all add: rna_pre_def numeral_2_eq_2)
  have 6: "gram ([[2]] @ [solver.sol \<lparr>solver.sol = [1], step = 1\<rparr>]) = Inr [[1]]"
    using example_gram by simp
  from rna_init_unconvertible [of "[Float 1, RaisesValueError]" 1 RaisesTypeError True True True
      ?self "[[2]]" "\<lparr>solver.sol = [1], step = 1\<rparr>" "[[1]]" 2 "small_lib no_step" "[[8], [2]]"]
    rna_init_unconvertible [of "[RaisesTypeError]" 1 RaisesTypeError True True True
      ?self "[[2]]" "\<lparr>solver.sol = [1], step = 1\<rparr>" "[[1]]" 2 "small_lib no_step" "[[8], [2]]"]
    1 2 3 4 5 6
  show ?thesis
    by simp
qed

section \<open>regularized\_nonlinear: the outcome of the line search\<close>

text \<open>
  Claim C9. On an extrapolating call with \<open>dolinesearch\<close>, let \<open>extrap\<close> be the proposal
  before the line search, \<open>xk\<close> the first buffered point and \<open>pk = extrap - xk\<close>. If the
  line search finds no step, the call returns \<open>extrap\<close> with a warning and raises nothing;
  if it finds the step \<open>a\<close>, the call returns \<open>xk + a * pk\<close>.
\<close>

theorem rna_line_search_outcome:
  assumes "niter mod (k self + 1) = 0" and "dolinesearch self"
    and "buffer self = Some b"
    and "rna_proposal lib self (b @ [solver.sol slv]) (solver.sol slv) objective =
           Inr (extrap, grid)"
    and "neg_index objective (k self) = Inr old"
    and "functions_list self = Some fl"
    and "xk = hd (b @ [solver.sol slv])" and "pk = vsub extrap xk"
    and "self' = self\<lparr>lambda_grid := Some (if adaptive self then [] else grid),
                       buffer := Some []\<rparr>"
    and "found = line_search_armijo lib (objective_value fl) xk pk pk (sum_list old)
                   (1 / 10000) 1"
  shows "rna_update_sol lib self slv objective niter =
           (case found of
              None \<Rightarrow> Inr (extrap, self', [Line_search_failed])
            | Some a \<Rightarrow> Inr (vadd xk (smul a pk), self', []))"
proof -
  let ?buf = "b @ [solver.sol slv]"
  from rna_proposal_grid [OF assms(4)] obtain UU where g: "gram ?buf = Inr UU"
    by blast
  have "length (solver.sol slv) = length (hd ?buf)"
    by (rule gram_rows [OF g]) simp
  moreover have "length extrap = length (solver.sol slv)"
    by (rule rna_proposal_length [OF assms(4)])
  ultimately have len: "length extrap = length xk"
    using assms(7) by simp
  then have sub: "np_sub extrap xk = Inr pk"
    using assms(8) by (simp add: np_sub_same_length)
  have lpk: "length pk = length xk"
    using len assms(8) by (simp add: length_vsub)
  have add: "np_add xk (smul a pk) = Inr (vadd xk (smul a pk))" for a
    using lpk by (simp add: np_add_same_length)
  have asg: "assign extrap (vadd xk (smul a pk)) = Inr (vadd xk (smul a pk))" for a
    using lpk len by (simp add: assign_def length_vadd)
  have ls: "rna_line_search lib self ?buf objective extrap =
      (case found of
         None \<Rightarrow> Inr (extrap, [Line_search_failed])
       | Some a \<Rightarrow> Inr (vadd xk (smul a pk), []))"
    using assms(5,6) assms(7) [symmetric] assms(10) [symmetric]
    by (simp add: rna_line_search_def Let_def sub add asg split: option.splits)
  have "rna_extrapolate lib self slv objective =
      (case found of
         None \<Rightarrow> Inr (extrap, self', [Line_search_failed])
       | Some a \<Rightarrow> Inr (vadd xk (smul a pk), self', []))"
    using assms(2,3,4,9)
    by (simp add: rna_extrapolate_def Let_def ls split: option.splits)
  then show ?thesis
    using assms(1) by (simp add: rna_update_sol_def)
qed

theorem rna_line_search_outcome_witness:
  "rna_update_sol (small_lib no_step) (example_fixed\<lparr>buffer := Some [[0], [1]]\<rparr>)
     \<lparr>solver.sol = [2], step = 1\<rparr> [[49 / 25], [4 / 25], [9 / 25]] 3 =
     Inr ([2], example_fixed, [Line_search_failed])
   \<and> rna_update_sol (small_lib armijo_two_trials) (example_fixed\<lparr>buffer := Some [[0], [1]]\<rparr>)
     \<lparr>solver.sol = [2], step = 1\<rparr> [[49 / 25], [4 / 25], [9 / 25]] 3 =
     Inr (vadd [0] (smul (10 / 19) [2]), example_fixed, [])"
proof -
  let ?self = "example_fixed\<lparr>buffer := Some [[0], [1]]\<rparr>"
  let ?slv = "\<lparr>solver.sol = [2], step = 1\<rparr>"
  let ?obj = "[[49 / 25], [4 / 25], [9 / 25::real]]"
  have 1: "3 mod (k ?self + 1) = 0" and 2: "dolinesearch ?self"
    and 3: "buffer ?self = Some [[0], [1]]" and 6: "functions_list ?self = Some [shifted_square]"
    by (simp_all add: example_fixed_def)
  have 4: "rna_proposal (small_lib ls) ?self ([[0], [1]] @ [solver.sol ?slv]) (solver.sol ?slv)
      ?obj = Inr ([2], [1])" for ls
    using example_fixed_proposal [of ls] by simp
  have 5: "neg_index ?obj (k ?self) = Inr [4 / 25]"
    by (simp add: example_fixed_def neg_index_def)
  have 7: "[0] = hd ([[0], [1]] @ [solver.sol ?slv])" and 8: "[2] = vsub [2] [0]"
    by (simp_all add: vsub_def)
  have 9: "example_fixed = ?self\<lparr>lambda_grid := Some (if adaptive ?self then [] else [1]),
                       buffer := Some []\<rparr>"
    by (simp add: example_fixed_def)
  have n: "None = line_search_armijo (small_lib no_step) (objective_value [shifted_square])
      [0] [2] [2] (sum_list [4 / 25]) (1 / 10000) 1"
    by (simp add: small_lib_def no_step_def)
  have s: "Some (10 / 19) = line_search_armijo (small_lib armijo_two_trials)
      (objective_value [shifted_square]) [0] [2] [2] (sum_list [4 / 25]) (1 / 10000) 1"
    by (simp add: small_lib_def example_fixed_armijo)
  from rna_line_search_outcome [OF 1 2 3 4 5 6 7 8 9 n]
    rna_line_search_outcome [OF 1 2 3 4 5 6 7 8 9 s]
  show ?thesis
    by simp
qed

section \<open>regularized\_nonlinear: the coefficients of the extrapolation\<close>

lemma gram_solution_sum_pos:
  fixes u :: "nat \<Rightarrow> nat \<Rightarrow> real" and c :: "nat \<Rightarrow> real"
  assumes n: "0 < n" and nu: "0 < nu" and lam: "0 \<le> lam"
    and rows: "\<And>i. i < n \<Longrightarrow>
      (\<Sum>j<n. ((\<Sum>l<d. u i l * u j l) / nu + (if i = j then lam else 0)) * c j) = 1"
  shows "0 < (\<Sum>i<n. c i)"
proof -
  define w where "w l = (\<Sum>j<n. c j * u j l)" for l
  define Q where "Q = (\<Sum>l<d. (w l)\<^sup>2)"
  define C where "C = (\<Sum>i<n. (c i)\<^sup>2)"
  have row: "(\<Sum>l<d. u i l * w l) / nu + lam * c i = 1" if i: "i < n" for i
  proof -
    have "(\<Sum>j<n. ((\<Sum>l<d. u i l * u j l) / nu + (if i = j then lam else 0)) * c j) =
        (\<Sum>j<n. (\<Sum>l<d. u i l * u j l) * c j / nu + (if i = j then lam else 0) * c j)"
      by (rule sum.cong) (simp_all add: distrib_right)
    also have "\<dots> =
        (\<Sum>j<n. (\<Sum>l<d. u i l * u j l) * c j) / nu + (\<Sum>j<n. (if i = j then lam else 0) * c j)"
      by (simp only: sum.distrib sum_divide_distrib)
    also have "(\<Sum>j<n. (if i = j then lam else 0) * c j) = lam * c i"
    proof -
      have "(\<Sum>j<n. (if i = j then lam else 0) * c j) = (\<Sum>j<n. if i = j then lam * c j else 0)"
        by (rule sum.cong) simp_all
      also have "\<dots> = lam * c i"
        using i by (simp add: sum.delta')
      finally show ?thesis .
    qed
    also have "(\<Sum>j<n. (\<Sum>l<d. u i l * u j l) * c j) = (\<Sum>l<d. u i l * w l)"
    proof -
      have "(\<Sum>j<n. (\<Sum>l<d. u i l * u j l) * c j) = (\<Sum>j<n. \<Sum>l<d. u i l * (c j * u j l))"
        by (simp add: sum_distrib_right sum_distrib_left mult_ac)
      also have "\<dots> = (\<Sum>l<d. \<Sum>j<n. u i l * (c j * u j l))"
        by (rule sum.swap)
      also have "\<dots> = (\<Sum>l<d. u i l * w l)"
        by (simp add: w_def sum_distrib_left sum_distrib_right mult_ac)
      finally show ?thesis .
    qed
    finally show ?thesis
      using rows [OF i] by simp
  qed
  have S: "(\<Sum>i<n. c i) = Q / nu + lam * C"
  proof -
    have "(\<Sum>i<n. c i) = (\<Sum>i<n. c i * ((\<Sum>l<d. u i l * w l) / nu + lam * c i))"
      by (rule sum.cong) (simp_all add: row)
    also have "\<dots> = (\<Sum>i<n. c i * (\<Sum>l<d. u i l * w l)) / nu + lam * (\<Sum>i<n. c i * c i)"
      by (simp add: distrib_left sum.distrib sum_divide_distrib sum_distrib_left mult_ac)
    also have "(\<Sum>i<n. c i * (\<Sum>l<d. u i l * w l)) = Q"
    proof -
      have "(\<Sum>i<n. c i * (\<Sum>l<d. u i l * w l)) = (\<Sum>i<n. \<Sum>l<d. (c i * u i l) * w l)"
        by (simp add: sum_distrib_right sum_distrib_left mult_ac)
      also have "\<dots> = (\<Sum>l<d. \<Sum>i<n. (c i * u i l) * w l)"
        by (rule sum.swap)
      also have "\<dots> = (\<Sum>l<d. w l * w l)"
        by (simp add: w_def sum_distrib_left sum_distrib_right mult_ac)
      finally show ?thesis
        by (simp add: Q_def power2_eq_square)
    qed
    finally show ?thesis
      by (simp add: C_def power2_eq_square)
  qed
  have Q0: "0 \<le> Q" and C0: "0 \<le> C"
    by (simp_all add: Q_def C_def sum_nonneg)
  have "Q / nu + lam * C \<noteq> 0"
  proof
    assume z: "Q / nu + lam * C = 0"
    have "0 \<le> Q / nu" and "0 \<le> lam * C"
      using Q0 C0 nu lam by simp_all
    with z have "Q / nu = 0" and lc: "lam * C = 0"
      by linarith+
    with nu have "Q = 0"
      by simp
    then have "\<forall>l\<in>{..<d}. (w l)\<^sup>2 = 0"
      unfolding Q_def by (subst (asm) sum_nonneg_eq_0_iff) simp_all
    then have w0: "w l = 0" if "l < d" for l
      using that by simp
    have "(\<Sum>l<d. u 0 l * w l) = 0"
      by (rule sum.neutral) (simp add: w0)
    with row [OF n] have one: "lam * c 0 = 1"
      by simp
    then have "lam \<noteq> 0" and "c 0 \<noteq> 0"
      by auto
    have "(c 0)\<^sup>2 \<le> C"
      unfolding C_def using n
      by (intro member_le_sum) simp_all
    moreover have "0 < (c 0)\<^sup>2"
      using \<open>c 0 \<noteq> 0\<close> by simp
    ultimately have "0 < C"
      by linarith
    with lc \<open>lam \<noteq> 0\<close> show False
      by simp
  qed
  moreover have "0 \<le> Q / nu + lam * C"
    using Q0 C0 nu lam by simp
  ultimately show ?thesis
    unfolding S by linarith
qed

lemma sum_list_nth: "sum_list (c::real list) = (\<Sum>i<length c. c ! i)"
  by (simp add: sum_list_sum_nth lessThan_atLeast0)

lemma sum_list_map2_nth:
  fixes f :: "'a \<Rightarrow> 'b \<Rightarrow> real"
  shows "length xs = length ys \<Longrightarrow>
    sum_list (map2 f xs ys) = (\<Sum>i<length xs. f (xs ! i) (ys ! i))"
  by (simp add: sum_list_sum_nth lessThan_atLeast0)

lemma dot_sum_nth: "length a = length b \<Longrightarrow> dot a b = (\<Sum>l<length a. a ! l * b ! l)"
  by (simp add: dot_def sum_list_map2_nth)

lemma sum_list_map_divide: "sum_list (map (\<lambda>x. x / s) xs) = sum_list xs / (s::real)"
  by (induction xs) (simp_all add: add_divide_distrib)

lemma sumsq_nonneg: "0 \<le> sumsq v"
  unfolding sumsq_def by (induction v) simp_all

lemma sum_sumsq_nonneg: "0 \<le> sum_list (map sumsq rs)"
  by (induction rs) (simp_all add: sumsq_nonneg)

lemma gram_entries:
  assumes g: "gram buf = Inr UU" and len: "length buf = Suc n" and n: "0 < n"
  shows "\<exists>nu>0. length UU = n \<and>
           (\<forall>i<n. \<forall>j<n. UU ! i ! j =
              (\<Sum>l<length (hd buf). (buf ! Suc i ! l - buf ! i ! l) * (buf ! Suc j ! l - buf ! j ! l))
                / nu)"
proof -
  let ?d = "length (hd buf)"
  let ?U = "map2 (\<lambda>a b. vsub b a) (butlast buf) (tl buf)"
  let ?R = "map (\<lambda>u. map (\<lambda>v. dot u v) ?U) ?U"
  let ?nrm = "sqrt (sum_list (map sumsq ?R))"
  have rows: "list_all (\<lambda>b. length b = ?d) buf"
    using g by (auto simp add: gram_def split: if_splits)
  have lenU: "length ?U = n"
    using len by simp
  have "length ?R = n"
    using lenU by (simp only: length_map)
  with n have R: "?R \<noteq> []"
    by (metis length_0_conv less_numeral_extra(3))
  have unfold: "gram buf =
      (if ?R \<noteq> [] \<and> ?nrm = 0 then Inl NonFinite else Inr (map (map (\<lambda>x. x / ?nrm)) ?R))"
    by (simp only: gram_def Let_def rows not_True_eq_False if_False)
  have nz: "?nrm \<noteq> 0"
  proof
    assume "?nrm = 0"
    with R unfold have "gram buf = Inl NonFinite"
      by (simp only: simp_thms if_True)
    with g show False
      by simp
  qed
  with unfold g have UU: "UU = map (map (\<lambda>x. x / ?nrm)) ?R"
    by (simp only: simp_thms if_False sum.inject)
  have "0 \<le> ?nrm"
    by (simp only: real_sqrt_ge_0_iff sum_sumsq_nonneg)
  with nz have pos: "0 < ?nrm"
    by simp
  have rowlen: "length (buf ! i) = ?d" if "i < Suc n" for i
    using rows len that by (simp add: list_all_length)
  have Ui: "?U ! i = vsub (buf ! Suc i) (buf ! i)" if "i < n" for i
    using that len by (simp add: nth_butlast nth_tl)
  have Uil: "length (?U ! i) = ?d" if "i < n" for i
    using that rowlen [of i] rowlen [of "Suc i"] by (simp only: Ui) (simp add: vsub_def)
  have Uin: "?U ! i ! l = buf ! Suc i ! l - buf ! i ! l" if "i < n" "l < ?d" for i l
    using that rowlen [of i] rowlen [of "Suc i"] by (simp only: Ui) (simp add: vsub_def)
  have entry: "UU ! i ! j =
      (\<Sum>l<?d. (buf ! Suc i ! l - buf ! i ! l) * (buf ! Suc j ! l - buf ! j ! l)) / ?nrm"
    if i: "i < n" and j: "j < n" for i j
  proof -
    have "UU ! i ! j = dot (?U ! i) (?U ! j) / ?nrm"
      using i j lenU unfolding UU by (simp only: nth_map length_map)
    also have "dot (?U ! i) (?U ! j) = (\<Sum>l<?d. ?U ! i ! l * ?U ! j ! l)"
      using Uil [OF i] Uil [OF j] by (simp only: dot_sum_nth)
    also have "\<dots> = (\<Sum>l<?d. (buf ! Suc i ! l - buf ! i ! l) * (buf ! Suc j ! l - buf ! j ! l))"
      by (rule sum.cong) (simp_all only: Uin [OF i] Uin [OF j] lessThan_iff)
    finally show ?thesis .
  qed
  have "length UU = n"
    unfolding UU using lenU by (simp only: length_map)
  with pos entry show ?thesis
    by blast
qed

lemma regularized_entries:
  assumes "regularized UU n lam = Inr M"
  shows "length M = n \<and> (\<forall>i<n. length (M ! i) = n \<and>
           (\<forall>j<n. M ! i ! j = UU ! i ! j + (if i = j then lam else 0)))"
  using assms by (auto simp add: regularized_def split: if_splits)

lemma coefficient_sum_positive:
  assumes lam: "0 \<le> lam" and g: "gram buf = Inr UU" and len: "length buf = Suc n"
    and n: "0 < n" and M: "regularized UU n lam = Inr M"
    and c0: "length c0 = n" and sol: "matvec M c0 = replicate n 1"
  shows "0 < sum_list c0"
proof -
  from gram_entries [OF g len n] obtain nu where nu: "0 < nu"
    and UU: "\<And>i j. i < n \<Longrightarrow> j < n \<Longrightarrow> UU ! i ! j =
              (\<Sum>l<length (hd buf). (buf ! Suc i ! l - buf ! i ! l) * (buf ! Suc j ! l - buf ! j ! l))
                / nu"
    by blast
  from regularized_entries [OF M] have lM: "length M = n"
    and lrow: "\<And>i. i < n \<Longrightarrow> length (M ! i) = n"
    and Mij: "\<And>i j. i < n \<Longrightarrow> j < n \<Longrightarrow> M ! i ! j = UU ! i ! j + (if i = j then lam else 0)"
    by auto
  have row: "(\<Sum>j<n. ((\<Sum>l<length (hd buf). (buf ! Suc i ! l - buf ! i ! l) *
                 (buf ! Suc j ! l - buf ! j ! l)) / nu + (if i = j then lam else 0)) * c0 ! j) = 1"
    if i: "i < n" for i
  proof -
    have "matvec M c0 ! i = 1"
      using sol i by simp
    then have "dot (M ! i) c0 = 1"
      using i lM by (simp add: matvec_def)
    then have "(\<Sum>j<n. M ! i ! j * c0 ! j) = 1"
      using lrow [OF i] c0 by (simp add: dot_sum_nth)
    moreover have "(\<Sum>j<n. M ! i ! j * c0 ! j) =
        (\<Sum>j<n. ((\<Sum>l<length (hd buf). (buf ! Suc i ! l - buf ! i ! l) *
                 (buf ! Suc j ! l - buf ! j ! l)) / nu + (if i = j then lam else 0)) * c0 ! j)"
      by (rule sum.cong) (simp_all only: Mij [OF i] UU [OF i] lessThan_iff)
    ultimately show ?thesis
      by simp
  qed
  have "0 < (\<Sum>i<n. c0 ! i)"
    by (rule gram_solution_sum_pos [OF n nu lam, where c = "\<lambda>i. c0 ! i"
          and u = "\<lambda>i l. buf ! Suc i ! l - buf ! i ! l" and d = "length (hd buf)"])
       (rule row)
  then show ?thesis
    using c0 by (simp add: sum_list_nth)
qed

text \<open>
  Claim C8. The candidates of the regularization grid are non-negative (the grid of the
  data model; the assembled grid is 0 followed by exponentials). Let \<open>UU\<close> be the
  normalized Gram matrix of the differences of \<open>k + 1\<close> buffered points, \<open>k > 0\<close>, and
  \<open>lambda \<ge> 0\<close> a candidate. If \<open>solve\<close> returns a solution \<open>c0\<close> of
  \<open>(UU + lambda * I) c0 = 1\<close>, then the sum of \<open>c0\<close> is positive, the coefficients are
  \<open>c0\<close> divided by its sum, they sum to 1, and the extrapolation formed from them has the
  entries \<open>\<Sum>i<k. buffer[i][j] * c[i]\<close>: it is an affine combination of the first \<open>k\<close>
  buffered points.
\<close>

theorem rna_coefficients_sum_to_one:
  assumes "0 \<le> lam" and "gram buf = Inr UU" and "length buf = Suc n" and "0 < n"
    and "regularized UU n lam = Inr M"
    and "solve lib M (replicate n 1) = Inr c0"
    and "length c0 = n" and "matvec M c0 = replicate n 1"
    and "c = map (\<lambda>x. x / sum_list c0) c0"
  shows "coefficients lib UU n lam = Inr c \<and> sum_list c = 1
         \<and> extrapolation (butlast buf) c m =
             Inr (map (\<lambda>j. \<Sum>i<n. buf ! i ! j * c ! i) [0..<m])"
proof -
  have pos: "0 < sum_list c0"
    by (rule coefficient_sum_positive [OF assms(1-5) assms(7,8)])
  have asg: "assign (replicate n 0) c0 = Inr c0"
    using assms(7) by (simp add: assign_def)
  have 1: "coefficients lib UU n lam = Inr c"
    using pos assms(5,6,9) by (simp add: coefficients_def asg)
  have 2: "sum_list c = 1"
    using pos assms(9) by (simp add: sum_list_map_divide)
  have lc: "length c = n"
    using assms(7,9) by simp
  have lb: "length (butlast buf) = n"
    using assms(3) by simp
  have "sum_list (map2 (\<lambda>r ci. r ! j * ci) (butlast buf) c) = (\<Sum>i<n. buf ! i ! j * c ! i)" for j
  proof -
    have "sum_list (map2 (\<lambda>r ci. r ! j * ci) (butlast buf) c) =
        (\<Sum>i<n. butlast buf ! i ! j * c ! i)"
      using lb lc by (simp add: sum_list_map2_nth)
    also have "\<dots> = (\<Sum>i<n. buf ! i ! j * c ! i)"
    proof (rule sum.cong)
      fix i assume "i \<in> {..<n}"
      then have "i < length (butlast buf)"
        using lb by simp
      then show "butlast buf ! i ! j * c ! i = buf ! i ! j * c ! i"
        by (simp only: nth_butlast)
    qed simp
    finally show ?thesis .
  qed
  then have 3: "extrapolation (butlast buf) c m =
             Inr (map (\<lambda>j. \<Sum>i<n. buf ! i ! j * c ! i) [0..<m])"
    using lb lc by (simp add: extrapolation_def)
  from 1 2 3 show ?thesis
    by blast
qed

theorem rna_coefficients_sum_to_one_witness:
  "coefficients (small_lib no_step) [[1 / 2, 1 / 2], [1 / 2, 1 / 2]] 2 1 = Inr [1 / 2, 1 / 2]
   \<and> sum_list [1 / 2, 1 / 2] = (1::real)
   \<and> extrapolation [[0], [1]] [1 / 2, 1 / 2] 1 = Inr [1 / 2]"
proof -
  have 1: "(0::real) \<le> 1" and 4: "(0::nat) < 2" and 3: "length [[0], [1], [2::real]] = Suc 2"
    by simp_all
  have 2: "gram [[0], [1], [2]] = Inr [[1 / 2, 1 / 2], [1 / 2, 1 / 2]]"
    by (rule example_fixed_gram)
  have 5: "regularized [[1 / 2, 1 / 2], [1 / 2, 1 / 2]] 2 1 = Inr [[3 / 2, 1 / 2], [1 / 2, 3 / 2]]"
    by (simp add: regularized_def numeral_2_eq_2)
  have 6: "solve (small_lib no_step) [[3 / 2, 1 / 2], [1 / 2, 3 / 2]] (replicate 2 1) =
      Inr [1 / 2, 1 / 2]"
    by (simp add: small_lib_def solve_small_def numeral_2_eq_2 Let_def)
  have 7: "length [1 / 2, 1 / 2 :: real] = 2"
    by simp
  have 8: "matvec [[3 / 2, 1 / 2], [1 / 2, 3 / 2]] [1 / 2, 1 / 2] = replicate 2 1"
    by (simp add: matvec_def dot_def numeral_2_eq_2)
  have 9: "[1 / 2, 1 / 2] = map (\<lambda>x. x / sum_list [1 / 2, 1 / 2]) [1 / 2, 1 / 2 :: real]"
    by simp
  from rna_coefficients_sum_to_one [OF 1 2 3 4 5 6 7 8 9, of 1] show ?thesis
    by (simp add: lessThan_Suc numeral_2_eq_2)
qed

end
